theory Spec2Isabelle
  imports Main "HOL-Library.AList"
begin

section \<open>Values, text and the process runner of lib/git.js\<close>

text \<open>
  The module shells out to the \<^verbatim>\<open>git\<close> executable. Everything it does with the
  executable goes through \<^verbatim>\<open>spawn.sync("git", args, ...)\<close>, so the executable is a
  parameter of the model: an executor takes the argument list it is invoked with and the
  state of the outside world, and gives back the result of the process and the new state.
  Text is a \<^typ>\<open>string\<close>: a list of code units below 256.
\<close>

subsection \<open>JavaScript values\<close>

text \<open>
  The option objects of the module carry the six flags that the code reads. A flag that
  is absent from the object is falsy, here \<^term>\<open>False\<close>.
\<close>

record options =
  global :: bool
  local :: bool
  all :: bool
  regex :: bool
  add :: bool
  unique :: bool

definition no_options :: options where
  "no_options = \<lparr>global = False, local = False, all = False, regex = False,
                  add = False, unique = False\<rparr>"

text \<open>
  The values that reach the functions as arguments: \<^verbatim>\<open>undefined\<close>, a string, an array
  (also an \<^verbatim>\<open>arguments\<close> object, which lodash flattens like an array) and an option
  object.
\<close>

datatype jsval = Undefined | Str string | Arr "jsval list" | Obj options

fun isString :: "jsval \<Rightarrow> bool" where
  "isString (Str s) = True"
| "isString v = False"

fun isArray :: "jsval \<Rightarrow> bool" where
  "isArray (Arr xs) = True"
| "isArray v = False"

fun isUndefined :: "jsval \<Rightarrow> bool" where
  "isUndefined Undefined = True"
| "isUndefined v = False"

text \<open>\<^verbatim>\<open>_.extend({}, defaults, options)\<close> with defaults that are all \<^verbatim>\<open>false\<close>: the
  flags of an option object, and no flag for any other value.\<close>

fun extend_defaults :: "jsval \<Rightarrow> options" where
  "extend_defaults (Obj opts) = opts"
| "extend_defaults v = no_options"

text \<open>\<^verbatim>\<open>_.castArray\<close>: an array is kept, any other value becomes a singleton.\<close>

fun castArray :: "jsval \<Rightarrow> jsval list" where
  "castArray (Arr xs) = xs"
| "castArray v = [v]"

text \<open>\<^verbatim>\<open>_.flattenDeep\<close> flattens at every depth, \<^verbatim>\<open>_.flatten\<close> one level only.\<close>

fun flattenDeep_val :: "jsval \<Rightarrow> jsval list" where
  "flattenDeep_val (Arr xs) = concat (map flattenDeep_val xs)"
| "flattenDeep_val v = [v]"

definition flattenDeep :: "jsval list \<Rightarrow> jsval list" where
  "flattenDeep xs = concat (map flattenDeep_val xs)"

definition flatten :: "jsval list \<Rightarrow> jsval list" where
  "flatten xs = concat (map castArray xs)"

text \<open>The positional parameter \<^verbatim>\<open>args\<close> of a function called with the given
  arguments: the first of them, \<^verbatim>\<open>undefined\<close> when there is none.\<close>

fun first_param :: "jsval list \<Rightarrow> jsval" where
  "first_param [] = Undefined"
| "first_param (a # as) = a"

subsection \<open>Text\<close>

text \<open>\<^verbatim>\<open>String.prototype.trimRight\<close> removes trailing white space and line terminators:
  tab, line feed, vertical tab, form feed, carriage return, space and no-break space.\<close>

definition is_white :: "char \<Rightarrow> bool" where
  "is_white c = (of_char c \<in> {9, 10, 11, 12, 13, 32, 160 :: nat})"

definition trimRight :: "string \<Rightarrow> string" where
  "trimRight s = rev (dropWhile is_white (rev s))"

text \<open>\<^verbatim>\<open>s.split("\n")\<close>: the pieces between line feeds; the empty text has one
  empty piece.\<close>

fun split_lines :: "string \<Rightarrow> string list" where
  "split_lines [] = [[]]"
| "split_lines (c # cs) =
     (if c = CHR 0x0A then [] # split_lines cs
      else (case split_lines cs of [] \<Rightarrow> [[c]] | l # ls \<Rightarrow> (c # l) # ls))"

subsection \<open>The process runner\<close>

text \<open>What \<^verbatim>\<open>spawn.sync\<close> returns. The exit status is \<^verbatim>\<open>null\<close> when the process was
  killed or never started; the captured streams are \<^verbatim>\<open>null\<close> when it never started.\<close>

record spawn_result =
  status :: "int option"
  stdout :: "string option"
  stderr :: "string option"

type_synonym 'w executor = "jsval list \<Rightarrow> 'w \<Rightarrow> spawn_result \<times> 'w"

text \<open>\<^verbatim>\<open>GitError(code, command, output, error)\<close>, and the \<^verbatim>\<open>TypeError\<close> that the
  runtime raises when a method is called on \<^verbatim>\<open>null\<close> or on a value that lacks it.\<close>

datatype error = GitError "int option" jsval string string | TypeError

text \<open>\<^verbatim>\<open>git.run\<close>: flattens its arguments and runs the executable. The debug log line
  has no effect on the result and is left out.\<close>

definition run :: "'w executor \<Rightarrow> jsval list \<Rightarrow> 'w \<Rightarrow> spawn_result \<times> 'w" where
  "run git arguments w = git (flattenDeep arguments) w"

text \<open>\<^verbatim>\<open>git.exec\<close> hands its \<^verbatim>\<open>arguments\<close> object to \<^verbatim>\<open>git.run\<close> as one argument. The
  error carries the parameter \<^verbatim>\<open>args\<close>. Reading \<^verbatim>\<open>trimRight\<close> from a stream that is
  \<^verbatim>\<open>null\<close> raises; the arguments of \<^verbatim>\<open>new GitError\<close> are evaluated left to right.\<close>

definition exec :: "'w executor \<Rightarrow> jsval list \<Rightarrow> 'w \<Rightarrow> (error + string) \<times> 'w" where
  "exec git arguments w =
     (let (result, w') = run git [Arr arguments] w in
      if status result \<noteq> Some 0 then
        (case stdout result of
           None \<Rightarrow> (Inl TypeError, w')
         | Some out \<Rightarrow>
             (case stderr result of
                None \<Rightarrow> (Inl TypeError, w')
              | Some err \<Rightarrow>
                  (Inl (GitError (status result) (first_param arguments)
                          (trimRight out) (trimRight err)), w')))
      else
        (case stdout result of
           None \<Rightarrow> (Inl TypeError, w')
         | Some out \<Rightarrow> (Inr (trimRight out), w')))"

text \<open>\<^verbatim>\<open>git.execSuccess\<close>.\<close>

definition execSuccess :: "'w executor \<Rightarrow> jsval list \<Rightarrow> 'w \<Rightarrow> bool \<times> 'w" where
  "execSuccess git arguments w =
     (let (result, w') = run git [Arr arguments] w in (status result = Some 0, w'))"

text \<open>\<^verbatim>\<open>git.show\<close> spawns the child with
  \<^verbatim>\<open>_.flatten(_.isArray(args) ? args : arguments)\<close>; this is the argument list it
  passes to \<^verbatim>\<open>spawn.spawn\<close>.\<close>

definition show_args :: "jsval list \<Rightarrow> jsval list" where
  "show_args arguments =
     flatten (if isArray (first_param arguments) then castArray (first_param arguments)
              else arguments)"


section \<open>The configuration store: lib/git.js, git.config\<close>

subsection \<open>Results of a read\<close>

text \<open>
  The object that a regex read builds has one own property per key, an array of values;
  a line without a value part pushes \<^verbatim>\<open>undefined\<close> (\<^term>\<open>None\<close>). The own properties
  are kept in the order of their creation.
\<close>

type_synonym js_object = "(string \<times> string option list) list"

text \<open>What \<^verbatim>\<open>git.config.get\<close> returns: \<^verbatim>\<open>null\<close>, a string, an array or the object
  of a regex read. \<^verbatim>\<open>git.config.set\<close> returns an array.\<close>

datatype config_value =
  Null | Single string | Values "jsval list" | Mapping js_object

text \<open>Every plain object inherits these properties from \<^verbatim>\<open>Object.prototype\<close>; each is
  truthy, and none is an array.\<close>

definition object_prototype :: "string list" where
  "object_prototype =
     [''constructor'', ''__defineGetter__'', ''__defineSetter__'', ''hasOwnProperty'',
      ''__lookupGetter__'', ''__lookupSetter__'', ''isPrototypeOf'',
      ''propertyIsEnumerable'', ''toString'', ''valueOf'', ''__proto__'',
      ''toLocaleString'']"

text \<open>
  The line pattern \<^verbatim>\<open>/^(.*?)( (.*))?$/\<close>. The dot matches any character but a line
  terminator (line feed and carriage return, among the code units below 256). The first
  group is lazy: at each position the matcher first tries the optional group, which needs
  a space here and no line terminator up to the end of the text; then the end of the
  text; and only then it lets the first group take one more character. The result is
  group 1 and group 3 (\<^term>\<open>None\<close> for \<^verbatim>\<open>undefined\<close>), or \<^term>\<open>None\<close> when there is no
  match.
\<close>

definition line_terminator :: "char \<Rightarrow> bool" where
  "line_terminator c = (c = CHR 0x0A \<or> c = CHR 0x0D)"

fun line_match_from :: "string \<Rightarrow> string \<Rightarrow> (string \<times> string option) option" where
  "line_match_from taken [] = Some (rev taken, None)"
| "line_match_from taken (c # cs) =
     (if c = CHR '' '' \<and> \<not> list_ex line_terminator cs then Some (rev taken, Some cs)
      else if line_terminator c then None
      else line_match_from (c # taken) cs)"

definition line_match :: "string \<Rightarrow> (string \<times> string option) option" where
  "line_match line = line_match_from [] line"

text \<open>The body of the \<^verbatim>\<open>forEach\<close> over the lines, and the loop. \<^verbatim>\<open>match[1]\<close> on a
  failed match raises; so does \<^verbatim>\<open>push\<close> on an inherited property, which is truthy and
  therefore not replaced by a fresh array.\<close>

fun push_line :: "js_object \<Rightarrow> string \<Rightarrow> error + js_object" where
  "push_line output line =
     (case line_match line of
        None \<Rightarrow> Inl TypeError
      | Some (k, v) \<Rightarrow>
          (case map_of output k of
             Some vs \<Rightarrow> Inr (AList.update k (vs @ [v]) output)
           | None \<Rightarrow>
               if k \<in> set object_prototype then Inl TypeError
               else Inr (output @ [(k, [v])])))"

fun collect_lines :: "js_object \<Rightarrow> string list \<Rightarrow> error + js_object" where
  "collect_lines output [] = Inr output"
| "collect_lines output (line # lines) =
     (case push_line output line of
        Inl e \<Rightarrow> Inl e
      | Inr output' \<Rightarrow> collect_lines output' lines)"

subsection \<open>git.config.get\<close>

definition scope_flags :: "options \<Rightarrow> string list" where
  "scope_flags opts =
     (if global opts then [''--global''] else []) @
     (if local opts then [''--local''] else [])"

definition get_flags :: "options \<Rightarrow> string list" where
  "get_flags opts =
     scope_flags opts @
     (if all opts then [''--get-all''] else []) @
     (if regex opts then [''--get-regexp''] else [])"

definition config_get ::
  "'w executor \<Rightarrow> string \<Rightarrow> jsval \<Rightarrow> 'w \<Rightarrow> (error + config_value) \<times> 'w" where
  "config_get git key options w =
     (let opts = extend_defaults options;
          flags = get_flags opts
      in case exec git [Str ''config'', Arr (map Str flags), Str key] w of
           (Inl err, w') \<Rightarrow>
             if all opts \<or> regex opts then (Inr (Values []), w') else (Inr Null, w')
         | (Inr output, w') \<Rightarrow>
             if all opts then (Inr (Values (map Str (split_lines output))), w')
             else if regex opts then
               (case collect_lines [] (split_lines output) of
                  Inl e \<Rightarrow> (Inl e, w')
                | Inr obj \<Rightarrow> (Inr (Mapping obj), w'))
             else (Inr (Single output), w'))"


subsection \<open>lodash helpers on arrays\<close>

text \<open>
  \<^verbatim>\<open>_.difference(array, values)\<close> keeps, in order and with repetitions, the elements of
  the first array that are not in the second. \<^verbatim>\<open>_.intersection(array, values)\<close> gives
  the unique elements of the first array that are in the second, each at its first
  position. A second argument that is not an array counts as empty in both; that is
  \<^term>\<open>array_like\<close>. Elements are compared with strings only (the second array is what
  a read returned), so equality of values is equality of the model.
\<close>

definition difference :: "jsval list \<Rightarrow> jsval list \<Rightarrow> jsval list" where
  "difference array vals = filter (\<lambda>v. v \<notin> set vals) array"

fun intersection_from :: "jsval list \<Rightarrow> jsval list \<Rightarrow> jsval list \<Rightarrow> jsval list" where
  "intersection_from result [] vals = result"
| "intersection_from result (v # array) vals =
     (if v \<notin> set result \<and> v \<in> set vals then intersection_from (result @ [v]) array vals
      else intersection_from result array vals)"

definition intersection :: "jsval list \<Rightarrow> jsval list \<Rightarrow> jsval list" where
  "intersection array vals = intersection_from [] array vals"

fun array_like :: "config_value \<Rightarrow> jsval list" where
  "array_like (Values xs) = xs"
| "array_like v = []"

text \<open>String concatenation converts its operands to strings: an array is its elements
  joined by commas, with \<^verbatim>\<open>undefined\<close> elements as empty text.\<close>

fun join_comma :: "string list \<Rightarrow> string" where
  "join_comma [] = []"
| "join_comma [x] = x"
| "join_comma (x # y # ys) = x @ '','' @ join_comma (y # ys)"

fun js_String :: "jsval \<Rightarrow> string" where
  "js_String Undefined = ''undefined''"
| "js_String (Str s) = s"
| "js_String (Obj opts) = ''[object Object]''"
| "js_String (Arr xs) =
     join_comma (map (\<lambda>v. if v = Undefined then [] else js_String v) xs)"

subsection \<open>git.config.unset, git.config.set, git.config.add, git.config.unsetMatching\<close>

definition config_unset ::
  "'w executor \<Rightarrow> string \<Rightarrow> jsval \<Rightarrow> 'w \<Rightarrow> (error + unit) \<times> 'w" where
  "config_unset git key options w =
     (let opts = extend_defaults options;
          flags = scope_flags opts
      in case exec git [Str ''config'', Str ''--unset-all'', Arr (map Str flags), Str key] w of
           (Inl e, w') \<Rightarrow> (Inl e, w')
         | (Inr output, w') \<Rightarrow> (Inr (), w'))"

text \<open>The loop \<^verbatim>\<open>values.forEach(function(val, i) { git.exec("config", flags, key, val); })\<close>:
  one invocation per value, in order; an error ends it.\<close>

fun add_each ::
  "'w executor \<Rightarrow> string list \<Rightarrow> string \<Rightarrow> jsval list \<Rightarrow> 'w \<Rightarrow> (error + unit) \<times> 'w" where
  "add_each git flags key [] w = (Inr (), w)"
| "add_each git flags key (val # vals) w =
     (case exec git [Str ''config'', Arr (map Str flags), Str key, val] w of
        (Inl e, w') \<Rightarrow> (Inl e, w')
      | (Inr output, w') \<Rightarrow> add_each git flags key vals w')"

text \<open>The end of \<^verbatim>\<open>git.config.set\<close>: the loop, then \<^verbatim>\<open>return values\<close>.\<close>

definition write_values ::
  "'w executor \<Rightarrow> string list \<Rightarrow> string \<Rightarrow> jsval list \<Rightarrow> 'w \<Rightarrow> (error + jsval list) \<times> 'w" where
  "write_values git flags key vals w =
     (case add_each git flags key vals w of
        (Inl e, w') \<Rightarrow> (Inl e, w')
      | (Inr u, w') \<Rightarrow> (Inr vals, w'))"

text \<open>\<^verbatim>\<open>git.config.set\<close>. In replace mode the error of \<^verbatim>\<open>git.config.unset\<close> is caught
  and dropped; the state it leaves is kept. In unique mode \<^verbatim>\<open>values\<close> is reassigned
  to the difference before the loop and the return.\<close>

definition config_set ::
  "'w executor \<Rightarrow> string \<Rightarrow> jsval \<Rightarrow> jsval \<Rightarrow> 'w \<Rightarrow> (error + jsval list) \<times> 'w" where
  "config_set git key values options w =
     (let vals = castArray values;
          opts = extend_defaults options;
          flags = scope_flags opts @ [''--add'']
      in if \<not> add opts then
           (let (r, w1) = config_unset git key (Obj opts) w
            in write_values git flags key vals w1)
         else if unique opts then
           (case config_get git key (Obj (opts\<lparr>all := True\<rparr>)) w of
              (Inl e, w1) \<Rightarrow> (Inl e, w1)
            | (Inr currentValues, w1) \<Rightarrow>
                write_values git flags key (difference vals (array_like currentValues)) w1)
         else write_values git flags key vals w)"

definition config_add ::
  "'w executor \<Rightarrow> string \<Rightarrow> jsval \<Rightarrow> jsval \<Rightarrow> 'w \<Rightarrow> (error + jsval list) \<times> 'w" where
  "config_add git key values options w =
     config_set git key values (Obj ((extend_defaults options)\<lparr>add := True\<rparr>)) w"

text \<open>The loop of \<^verbatim>\<open>git.config.unsetMatching\<close>:
  \<^verbatim>\<open>git.exec("config", "--unset", flags, key, "^"+val+"$")\<close> for each value.\<close>

fun unset_each ::
  "'w executor \<Rightarrow> string list \<Rightarrow> string \<Rightarrow> jsval list \<Rightarrow> 'w \<Rightarrow> (error + unit) \<times> 'w" where
  "unset_each git flags key [] w = (Inr (), w)"
| "unset_each git flags key (val # vals) w =
     (case exec git [Str ''config'', Str ''--unset'', Arr (map Str flags), Str key,
                     Str (''^'' @ js_String val @ ''$'')] w of
        (Inl e, w') \<Rightarrow> (Inl e, w')
      | (Inr output, w') \<Rightarrow> unset_each git flags key vals w')"

definition config_unsetMatching ::
  "'w executor \<Rightarrow> string \<Rightarrow> jsval \<Rightarrow> jsval \<Rightarrow> 'w \<Rightarrow> (error + jsval list) \<times> 'w" where
  "config_unsetMatching git key values options w =
     (let vals = castArray values;
          opts = extend_defaults options;
          flags = scope_flags opts
      in case config_get git key (Obj (opts\<lparr>all := True\<rparr>)) w of
           (Inl e, w1) \<Rightarrow> (Inl e, w1)
         | (Inr currentValues, w1) \<Rightarrow>
             (let vals' = intersection vals (array_like currentValues)
              in case unset_each git flags key vals' w1 of
                   (Inl e, w') \<Rightarrow> (Inl e, w')
                 | (Inr u, w') \<Rightarrow> (Inr vals', w')))"

subsection \<open>git.config, the combined entry point\<close>

fun nth_argument :: "jsval list \<Rightarrow> nat \<Rightarrow> jsval" where
  "nth_argument [] n = Undefined"
| "nth_argument (a # as) 0 = a"
| "nth_argument (a # as) (Suc n) = nth_argument as n"

text \<open>\<^verbatim>\<open>git.config(key, values, options)\<close> called with \<^verbatim>\<open>key\<close> and the further arguments
  \<^verbatim>\<open>rest\<close>, so that \<^verbatim>\<open>arguments.length\<close> is one more than their number. The array that
  a write returns is a \<^term>\<open>Values\<close>.\<close>

definition config ::
  "'w executor \<Rightarrow> string \<Rightarrow> jsval list \<Rightarrow> 'w \<Rightarrow> (error + config_value) \<times> 'w" where
  "config git key rest w =
     (let values = nth_argument rest 0;
          options = nth_argument rest 1;
          swap = (Suc (length rest) = 2 \<and> \<not> isString values \<and> \<not> isArray values);
          options = (if swap then values else options);
          values = (if swap then Undefined else values)
      in if isUndefined values then config_get git key options w
         else (case config_set git key values options w of
                 (Inl e, w') \<Rightarrow> (Inl e, w')
               | (Inr written, w') \<Rightarrow> (Inr (Values written), w')))"

subsection \<open>git.config.subsections\<close>

text \<open>
  \<^verbatim>\<open>_.keys\<close> of what a read returned. The keys of an array or of a string are its
  indices in decimal. The own keys of an object come with the array indices first, in
  ascending order, and then the other keys in the order of their creation; an array
  index is the canonical decimal form of a number below \<open>2\<^sup>3\<^sup>2 - 1\<close>.
\<close>

fun decimal :: "nat \<Rightarrow> string" where
  "decimal n =
     (if n < 10 then [char_of (48 + n)] else decimal (n div 10) @ [char_of (48 + n mod 10)])"

definition is_digit :: "char \<Rightarrow> bool" where
  "is_digit c = (48 \<le> (of_char c :: nat) \<and> (of_char c :: nat) \<le> 57)"

definition index_value :: "string \<Rightarrow> nat" where
  "index_value s = foldl (\<lambda>n c. 10 * n + (of_char c - 48)) 0 s"

definition is_array_index :: "string \<Rightarrow> bool" where
  "is_array_index s =
     (s \<noteq> [] \<and> list_all is_digit s \<and> (length s = 1 \<or> hd s \<noteq> CHR ''0'') \<and>
      index_value s < 4294967295)"

definition own_keys :: "js_object \<Rightarrow> string list" where
  "own_keys obj =
     (let ks = map fst obj
      in sort_key index_value (filter is_array_index ks) @
         filter (\<lambda>k. \<not> is_array_index k) ks)"

fun js_keys :: "config_value \<Rightarrow> string list" where
  "js_keys Null = []"
| "js_keys (Single s) = map decimal [0..<length s]"
| "js_keys (Values xs) = map decimal [0..<length xs]"
| "js_keys (Mapping obj) = own_keys obj"

text \<open>\<^verbatim>\<open>s.replace(/\.[^.]*$/, "")\<close>: the leftmost match is the last dot of the text with
  all that follows it; a text without a dot is unchanged.\<close>

fun strip_leaf :: "string \<Rightarrow> string" where
  "strip_leaf [] = []"
| "strip_leaf (c # cs) =
     (if c = CHR ''.'' \<and> CHR ''.'' \<notin> set cs then [] else c # strip_leaf cs)"

text \<open>The mapped function: \<^verbatim>\<open>subsection.substr(section.length + 1)\<close>, then the replace.\<close>

definition subsection_name :: "string \<Rightarrow> string \<Rightarrow> string" where
  "subsection_name section subsection = strip_leaf (drop (length section + 1) subsection)"

definition config_subsections ::
  "'w executor \<Rightarrow> string \<Rightarrow> jsval \<Rightarrow> 'w \<Rightarrow> (error + string list) \<times> 'w" where
  "config_subsections git section options w =
     (let options' = Obj ((extend_defaults options)\<lparr>regex := True\<rparr>)
      in case config git (''^'' @ section @ [CHR 0x5C, CHR ''.'']) [options'] w of
           (Inl e, w') \<Rightarrow> (Inl e, w')
         | (Inr configs, w') \<Rightarrow> (Inr (map (subsection_name section) (js_keys configs)), w'))"


section \<open>An in-memory store behind the executor\<close>

text \<open>
  What a write leaves in the store is decided by the executable, not by lib/git.js. To
  state it, the executor is instantiated with an in-memory store that follows the
  documented behaviour of \<^verbatim>\<open>git config\<close> for the invocations the module issues:
  \<^item> the store is two files, the global and the local one, each a list of key and value
    entries in file order; keys and values are opaque text;
  \<^item> \<^verbatim>\<open>--global\<close> and \<^verbatim>\<open>--local\<close> select one file, and together they are refused; without
    either a read sees the global file followed by the local one and a write goes to the
    local file;
  \<^item> a read prints one line per value and exits with 1 when there is none;
  \<^item> \<^verbatim>\<open>--add\<close> appends one entry;
  \<^item> \<^verbatim>\<open>--unset-all\<close> removes every entry of the key and \<^verbatim>\<open>--unset\<close> the single entry of
    the key whose value matches the pattern; both exit with 5 when no entry is concerned,
    and \<^verbatim>\<open>--unset\<close> also when more than one is, leaving the file as it was.
  The regular expressions of the executable are a parameter \<open>rx\<close>: \<open>rx p t\<close> says that
  the pattern \<open>p\<close> matches the text \<open>t\<close>. The store also records every invocation.
\<close>

record store =
  global_file :: "(string \<times> string) list"
  local_file :: "(string \<times> string) list"
  invocations :: "string list list"

definition succeeded :: "string \<Rightarrow> spawn_result" where
  "succeeded out = \<lparr>status = Some 0, stdout = Some out, stderr = Some []\<rparr>"

definition failed :: "int \<Rightarrow> spawn_result" where
  "failed n = \<lparr>status = Some n, stdout = Some [], stderr = Some ''error''\<rparr>"

definition is_flag :: "string \<Rightarrow> bool" where
  "is_flag a = (take 2 a = ''--'')"

definition action_flags :: "string list" where
  "action_flags = [''--get-all'', ''--get-regexp'', ''--add'', ''--unset'', ''--unset-all'']"

definition known_flags :: "string list" where
  "known_flags = [''--global'', ''--local''] @ action_flags"

definition values_of :: "string \<Rightarrow> (string \<times> string) list \<Rightarrow> string list" where
  "values_of key entries = map snd (filter (\<lambda>e. fst e = key) entries)"

definition read_entries :: "string list \<Rightarrow> store \<Rightarrow> (string \<times> string) list" where
  "read_entries flags st =
     (if ''--global'' \<in> set flags then global_file st
      else if ''--local'' \<in> set flags then local_file st
      else global_file st @ local_file st)"

definition target_file :: "string list \<Rightarrow> store \<Rightarrow> (string \<times> string) list" where
  "target_file flags st =
     (if ''--global'' \<in> set flags then global_file st else local_file st)"

definition put_target :: "string list \<Rightarrow> (string \<times> string) list \<Rightarrow> store \<Rightarrow> store" where
  "put_target flags entries st =
     (if ''--global'' \<in> set flags then st\<lparr>global_file := entries\<rparr>
      else st\<lparr>local_file := entries\<rparr>)"

definition print_values :: "string list \<Rightarrow> string" where
  "print_values vs = concat (map (\<lambda>v. v @ [CHR 0x0A]) vs)"

definition print_entries :: "(string \<times> string) list \<Rightarrow> string" where
  "print_entries es = concat (map (\<lambda>e. fst e @ '' '' @ snd e @ [CHR 0x0A]) es)"

definition store_read ::
  "(string \<Rightarrow> string \<Rightarrow> bool) \<Rightarrow> string option \<Rightarrow> string list \<Rightarrow> string \<Rightarrow> store \<Rightarrow>
   spawn_result \<times> store" where
  "store_read rx action flags key st =
     (if action = Some ''--get-regexp'' then
        (let es = filter (\<lambda>e. rx key (fst e)) (read_entries flags st)
         in if es = [] then (failed 1, st) else (succeeded (print_entries es), st))
      else
        (let vs = values_of key (read_entries flags st)
         in if vs = [] then (failed 1, st)
            else if action = Some ''--get-all'' then (succeeded (print_values vs), st)
            else (succeeded (print_values [last vs]), st)))"

definition store_unset ::
  "string list \<Rightarrow> ((string \<times> string) \<Rightarrow> bool) \<Rightarrow> bool \<Rightarrow> store \<Rightarrow> spawn_result \<times> store" where
  "store_unset flags concerned every st =
     (let es = target_file flags st;
          n = length (filter concerned es)
      in if n = 0 \<or> (\<not> every \<and> 1 < n) then (failed 5, st)
         else (succeeded [], put_target flags (filter (\<lambda>e. \<not> concerned e) es) st))"

definition store_config ::
  "(string \<Rightarrow> string \<Rightarrow> bool) \<Rightarrow> string list \<Rightarrow> store \<Rightarrow> spawn_result \<times> store" where
  "store_config rx args st =
     (let flags = takeWhile is_flag args;
          operands = dropWhile is_flag args;
          actions = remdups (filter (\<lambda>f. f \<in> set action_flags) flags);
          action = (case actions of [] \<Rightarrow> None | a # as \<Rightarrow> Some a)
      in if \<not> set flags \<subseteq> set known_flags then (failed 129, st)
         else if ''--global'' \<in> set flags \<and> ''--local'' \<in> set flags then (failed 129, st)
         else if 1 < length actions then (failed 129, st)
         else if action \<in> {None, Some ''--get-all'', Some ''--get-regexp''}
                 \<and> length operands = 1 then
           store_read rx action flags (hd operands) st
         else if action = Some ''--add'' \<and> length operands = 2 then
           (succeeded [],
            put_target flags (target_file flags st @ [(hd operands, hd (tl operands))]) st)
         else if action = Some ''--unset-all'' \<and> length operands = 1 then
           store_unset flags (\<lambda>e. fst e = hd operands) True st
         else if action = Some ''--unset'' \<and> length operands = 1 then
           store_unset flags (\<lambda>e. fst e = hd operands) False st
         else if action = Some ''--unset'' \<and> length operands = 2 then
           store_unset flags (\<lambda>e. fst e = hd operands \<and> rx (hd (tl operands)) (snd e)) False st
         else (failed 129, st))"

text \<open>The executor: the runtime converts every argument to a string, the invocation is
  recorded, and only the \<^verbatim>\<open>config\<close> command is known.\<close>

definition git_store :: "(string \<Rightarrow> string \<Rightarrow> bool) \<Rightarrow> store executor" where
  "git_store rx args st =
     (let argv = map js_String args;
          st' = st\<lparr>invocations := invocations st @ [argv]\<rparr>
      in case argv of
           [] \<Rightarrow> (failed 1, st')
         | command # rest \<Rightarrow>
             if command = ''config'' then store_config rx rest st' else (failed 1, st'))"

text \<open>A pattern language without operators: \<^verbatim>\<open>^text$\<close> matches exactly \<^verbatim>\<open>text\<close>, and
  nothing else matches.\<close>

definition rx_exact :: "string \<Rightarrow> string \<Rightarrow> bool" where
  "rx_exact p t = (p = ''^'' @ t @ ''$'')"

text \<open>A pattern \<^verbatim>\<open>^text\<close> without operators, read as a search: it matches what begins
  with \<^verbatim>\<open>text\<close>.\<close>

definition rx_prefix :: "string \<Rightarrow> string \<Rightarrow> bool" where
  "rx_prefix p t = (p \<noteq> [] \<and> hd p = CHR ''^'' \<and> take (length (tl p)) t = tl p)"

text \<open>The scope an option object selects, as the file a write goes to and the entries a
  read of all values sees.\<close>

definition written_file :: "options \<Rightarrow> store \<Rightarrow> (string \<times> string) list" where
  "written_file opts st = (if global opts then global_file st else local_file st)"

definition other_file :: "options \<Rightarrow> store \<Rightarrow> (string \<times> string) list" where
  "other_file opts st = (if global opts then local_file st else global_file st)"

definition visible_entries :: "options \<Rightarrow> store \<Rightarrow> (string \<times> string) list" where
  "visible_entries opts st =
     (if global opts then global_file st
      else if local opts then local_file st
      else global_file st @ local_file st)"

section \<open>The words of the specification\<close>

text \<open>A line of a regex read split at its first space into the key and the rest of the
  line; a line without a space has no rest.\<close>

definition spec_key :: "string \<Rightarrow> string" where
  "spec_key line = takeWhile (\<lambda>c. c \<noteq> CHR '' '') line"

definition spec_rest :: "string \<Rightarrow> string option" where
  "spec_rest line =
     (if CHR '' '' \<in> set line then Some (tl (dropWhile (\<lambda>c. c \<noteq> CHR '' '') line)) else None)"

text \<open>The mapping of a regex read: every key of a line maps to the rests of the lines
  with that key, in the order of the lines.\<close>

definition spec_mapping :: "string list \<Rightarrow> string \<Rightarrow> string option list option" where
  "spec_mapping lines k =
     (if k \<in> spec_key ` set lines
      then Some (map spec_rest (filter (\<lambda>line. spec_key line = k) lines))
      else None)"


section \<open>Auxiliary notions\<close>

text \<open>What \<^term>\<open>exec\<close> makes of the result of the process: the two branches of
  \<^verbatim>\<open>git.exec\<close> after the call of \<^verbatim>\<open>git.run\<close>, with the value of \<^verbatim>\<open>args\<close> given.\<close>

definition exec_outcome :: "jsval \<Rightarrow> spawn_result \<Rightarrow> error + string" where
  "exec_outcome command result =
     (if status result \<noteq> Some 0 then
        (case stdout result of
           None \<Rightarrow> Inl TypeError
         | Some out \<Rightarrow>
             (case stderr result of
                None \<Rightarrow> Inl TypeError
              | Some err \<Rightarrow> Inl (GitError (status result) command (trimRight out) (trimRight err))))
      else (case stdout result of None \<Rightarrow> Inl TypeError | Some out \<Rightarrow> Inr (trimRight out)))"

text \<open>The distinct elements of a list, each at its first position.\<close>

fun first_occurrences :: "'a list \<Rightarrow> 'a list" where
  "first_occurrences [] = []"
| "first_occurrences (x # xs) = x # filter (\<lambda>y. y \<noteq> x) (first_occurrences xs)"

text \<open>The rests of the lines that have a given key.\<close>

definition rests :: "string \<Rightarrow> string list \<Rightarrow> string option list" where
  "rests k lines = map spec_rest (filter (\<lambda>line. spec_key line = k) lines)"

text \<open>The store after an invocation was recorded, and after the file that the options
  select for writing was replaced.\<close>

definition logged :: "string list \<Rightarrow> store \<Rightarrow> store" where
  "logged argv st = st\<lparr>invocations := invocations st @ [argv]\<rparr>"

definition put_written :: "options \<Rightarrow> (string \<times> string) list \<Rightarrow> store \<Rightarrow> store" where
  "put_written opts entries st =
     (if global opts then st\<lparr>global_file := entries\<rparr> else st\<lparr>local_file := entries\<rparr>)"

text \<open>A value that a read of all values gives back as it was written: not empty, without
  a line feed, and not ending in white space.\<close>

definition plain :: "string \<Rightarrow> bool" where
  "plain v = (v \<noteq> [] \<and> CHR 0x0A \<notin> set v \<and> \<not> is_white (last v))"

text \<open>A store with no entries.\<close>

definition empty_store :: store where
  "empty_store = \<lparr>global_file = [], local_file = [], invocations = []\<rparr>"

section \<open>Properties\<close>

subsection \<open>The process runner\<close>

lemma flattenDeep_val_strs [simp]: "concat (map (flattenDeep_val \<circ> Str) xs) = map Str xs"
  by (induction xs) auto

lemma flattenDeep_no_array: "v \<in> set (flattenDeep_val x) \<Longrightarrow> \<not> isArray v"
proof (induction x arbitrary: v rule: flattenDeep_val.induct)
  case (1 xs) then show ?case by auto
qed auto

lemma flattenDeep_flat: "v \<in> set (flattenDeep xs) \<Longrightarrow> \<not> isArray v"
  by (auto simp: flattenDeep_def dest: flattenDeep_no_array)

lemma flattenDeep_append: "flattenDeep (xs @ ys) = flattenDeep xs @ flattenDeep ys"
  by (simp add: flattenDeep_def)

lemma flattenDeep_group: "flattenDeep (Arr xs # ys) = flattenDeep xs @ flattenDeep ys"
  by (simp add: flattenDeep_def)

lemma flattenDeep_leaf: "\<not> isArray v \<Longrightarrow> flattenDeep (v # ys) = v # flattenDeep ys"
  by (cases v) (simp_all add: flattenDeep_def)

lemma exec_outcome_eq:
  "exec git arguments w =
     (case git (concat (map flattenDeep_val arguments)) w of
        (result, w') \<Rightarrow> (exec_outcome (first_param arguments) result, w'))"
  by (simp add: exec_def run_def flattenDeep_def exec_outcome_def split: prod.splits option.splits)

lemma exec_read:
  "exec git [Str c, Arr (map Str flags), Str key] w =
     (case git (map Str (c # flags @ [key])) w of
        (result, w') \<Rightarrow> (exec_outcome (Str c) result, w'))"
  by (simp add: exec_outcome_eq)

lemma exec_add:
  "exec git [Str c, Arr (map Str flags), Str key, Str v] w =
     (case git (map Str (c # flags @ [key, v])) w of
        (result, w') \<Rightarrow> (exec_outcome (Str c) result, w'))"
  by (simp add: exec_outcome_eq)

lemma exec_unset:
  "exec git [Str c, Str u, Arr (map Str flags), Str key] w =
     (case git (map Str (c # u # flags @ [key])) w of
        (result, w') \<Rightarrow> (exec_outcome (Str c) result, w'))"
  by (simp add: exec_outcome_eq)

lemma exec_unset_pattern:
  "exec git [Str c, Str u, Arr (map Str flags), Str key, Str p] w =
     (case git (map Str (c # u # flags @ [key, p])) w of
        (result, w') \<Rightarrow> (exec_outcome (Str c) result, w'))"
  by (simp add: exec_outcome_eq)

lemma exec_outcome_succeeded [simp]: "exec_outcome c (succeeded out) = Inr (trimRight out)"
  by (simp add: exec_outcome_def succeeded_def)

lemma exec_outcome_failed [simp]:
  "n \<noteq> 0 \<Longrightarrow> exec_outcome c (failed n) = Inl (GitError (Some n) c [] ''error'')"
  by (simp add: exec_outcome_def failed_def trimRight_def is_white_def)


text \<open>
  Claim C9 says that every operation of the process runner flattens its arguments at any
  depth. \<^verbatim>\<open>git.run\<close> does, and with it \<^verbatim>\<open>git.exec\<close> and \<^verbatim>\<open>git.execSuccess\<close>:
  \<^term>\<open>flattenDeep\<close> leaves no array. \<^verbatim>\<open>git.show\<close> flattens one level only, so a
  group nested twice reaches the child process as an array; and when its first argument
  is an array the arguments after it are dropped.
\<close>

theorem show_flattens_one_level:
  "show_args [Str ''log'', Arr [Str ''--format'', Arr [Str ''%h'']]]
     = [Str ''log'', Str ''--format'', Arr [Str ''%h'']]
   \<and> flattenDeep [Str ''log'', Arr [Str ''--format'', Arr [Str ''%h'']]]
     = [Str ''log'', Str ''--format'', Str ''%h'']
   \<and> show_args [Arr [Str ''log''], Str ''--oneline''] = [Str ''log'']"
  by (simp add: show_args_def flatten_def flattenDeep_def)

text \<open>
  Claim C8 says that the error of \<^verbatim>\<open>git.exec\<close> carries the invoked command. The
  executable is invoked with all the arguments, flattened; the error carries the first
  argument of the call alone. The exit status and the two streams, trimmed on the right,
  are as claimed.
\<close>

theorem exec_error_carries_first_argument:
  "exec (\<lambda>args w. (\<lparr>status = Some 1, stdout = Some (''out'' @ [CHR 0x0A]),
                       stderr = Some (''err'' @ [CHR 0x0A])\<rparr>, w @ [args]))
        [Str ''config'', Arr [Str ''--get''], Str ''user.name''] []
   = (Inl (GitError (Some 1) (Str ''config'') ''out'' ''err''),
      [[Str ''config'', Str ''--get'', Str ''user.name'']])"
  by (simp add: exec_def run_def flattenDeep_def trimRight_def is_white_def)

subsection \<open>Reading\<close>

lemma line_match_from_plain:
  "\<not> list_ex line_terminator cs \<Longrightarrow>
   line_match_from taken cs =
     Some (rev taken @ takeWhile (\<lambda>c. c \<noteq> CHR '' '') cs,
           if CHR '' '' \<in> set cs then Some (tl (dropWhile (\<lambda>c. c \<noteq> CHR '' '') cs)) else None)"
  by (induction cs arbitrary: taken) (auto simp: list_ex_iff)

lemma line_match_from_terminator:
  "list_ex line_terminator cs \<Longrightarrow> line_match_from taken cs = None"
  by (induction cs arbitrary: taken) (auto simp: list_ex_iff line_terminator_def)

lemma line_match_plain:
  "\<not> list_ex line_terminator line \<Longrightarrow> line_match line = Some (spec_key line, spec_rest line)"
  by (simp add: line_match_def line_match_from_plain spec_key_def spec_rest_def)

lemma collect_lines_spec:
  assumes "\<forall>line\<in>set lines. \<not> list_ex line_terminator line \<and> spec_key line \<notin> set object_prototype"
  shows "\<exists>obj'. collect_lines obj lines = Inr obj' \<and>
           (\<forall>k. map_of obj' k =
              (case map_of obj k of
                 Some vs \<Rightarrow> Some (vs @ rests k lines)
               | None \<Rightarrow> if k \<in> spec_key ` set lines then Some (rests k lines) else None)) \<and>
           map fst obj' =
             map fst obj @ filter (\<lambda>k. k \<notin> set (map fst obj)) (first_occurrences (map spec_key lines))"
  using assms
proof (induction lines arbitrary: obj)
  case Nil
  then show ?case by (auto simp: rests_def split: option.splits)
next
  case (Cons line lines)
  let ?k = "spec_key line"
  let ?v = "spec_rest line"
  have lm: "line_match line = Some (?k, ?v)"
    using Cons.prems by (simp add: line_match_plain)
  have notproto: "?k \<notin> set object_prototype" using Cons.prems by simp
  have rest: "\<forall>line\<in>set lines. \<not> list_ex line_terminator line \<and> spec_key line \<notin> set object_prototype"
    using Cons.prems by simp
  show ?case
  proof (cases "map_of obj ?k")
    case None
    let ?obj1 = "obj @ [(?k, [?v])]"
    have step: "push_line obj line = Inr ?obj1"
      using lm None notproto by simp
    from Cons.IH[OF rest, of ?obj1] obtain obj' where
      c: "collect_lines ?obj1 lines = Inr obj'" and
      m: "\<forall>k. map_of obj' k =
              (case map_of ?obj1 k of
                 Some vs \<Rightarrow> Some (vs @ rests k lines)
               | None \<Rightarrow> if k \<in> spec_key ` set lines then Some (rests k lines) else None)" and
      o: "map fst obj' = map fst ?obj1 @ filter (\<lambda>k. k \<notin> set (map fst ?obj1)) (first_occurrences (map spec_key lines))"
      by blast
    have knot: "?k \<notin> set (map fst obj)" using None by (simp add: map_of_eq_None_iff)
    have "collect_lines obj (line # lines) = Inr obj'" using step c by simp
    moreover have "\<forall>k. map_of obj' k =
              (case map_of obj k of
                 Some vs \<Rightarrow> Some (vs @ rests k (line # lines))
               | None \<Rightarrow> if k \<in> spec_key ` set (line # lines) then Some (rests k (line # lines)) else None)"
    proof
      fix k
      show "map_of obj' k =
              (case map_of obj k of
                 Some vs \<Rightarrow> Some (vs @ rests k (line # lines))
               | None \<Rightarrow> if k \<in> spec_key ` set (line # lines) then Some (rests k (line # lines)) else None)"
      proof (cases "k = ?k")
        case True
        then have "map_of ?obj1 k = Some [?v]" using None by (simp add: map_add_def)
        then show ?thesis using m True None by (simp add: rests_def)
      next
        case False
        then have "map_of ?obj1 k = map_of obj k" by (auto simp: map_add_def split: option.splits)
        then show ?thesis using m False by (auto simp: rests_def split: option.splits)
      qed
    qed
    moreover have "map fst obj' =
             map fst obj @ filter (\<lambda>k. k \<notin> set (map fst obj)) (first_occurrences (map spec_key (line # lines)))"
    proof -
      have "filter (\<lambda>k. k \<notin> set (map fst obj)) (filter (\<lambda>y. y \<noteq> ?k) (first_occurrences (map spec_key lines)))
            = filter (\<lambda>k. k \<notin> set (map fst ?obj1)) (first_occurrences (map spec_key lines))"
        by (auto intro: filter_cong)
      then show ?thesis using o knot by simp
    qed
    ultimately show ?thesis by blast
  next
    case (Some vs)
    let ?obj1 = "AList.update ?k (vs @ [?v]) obj"
    have step: "push_line obj line = Inr ?obj1"
      using lm Some by simp
    have kin: "?k \<in> set (map fst obj)" using Some by (metis map_of_eq_None_iff option.distinct(1) set_map)
    have keys1: "map fst ?obj1 = map fst obj" using kin by (simp add: update_keys)
    from Cons.IH[OF rest, of ?obj1] obtain obj' where
      c: "collect_lines ?obj1 lines = Inr obj'" and
      m: "\<forall>k. map_of obj' k =
              (case map_of ?obj1 k of
                 Some vs \<Rightarrow> Some (vs @ rests k lines)
               | None \<Rightarrow> if k \<in> spec_key ` set lines then Some (rests k lines) else None)" and
      o: "map fst obj' = map fst ?obj1 @ filter (\<lambda>k. k \<notin> set (map fst ?obj1)) (first_occurrences (map spec_key lines))"
      by blast
    have "collect_lines obj (line # lines) = Inr obj'" using step c by simp
    moreover have "\<forall>k. map_of obj' k =
              (case map_of obj k of
                 Some vs \<Rightarrow> Some (vs @ rests k (line # lines))
               | None \<Rightarrow> if k \<in> spec_key ` set (line # lines) then Some (rests k (line # lines)) else None)"
    proof
      fix k
      show "map_of obj' k =
              (case map_of obj k of
                 Some vs \<Rightarrow> Some (vs @ rests k (line # lines))
               | None \<Rightarrow> if k \<in> spec_key ` set (line # lines) then Some (rests k (line # lines)) else None)"
      proof (cases "k = ?k")
        case True
        then show ?thesis using m Some by (simp add: rests_def update_conv')
      next
        case False
        then have "map_of ?obj1 k = map_of obj k" by (simp add: update_conv')
        then show ?thesis using m False by (auto simp: rests_def split: option.splits)
      qed
    qed
    moreover have "map fst obj' =
             map fst obj @ filter (\<lambda>k. k \<notin> set (map fst obj)) (first_occurrences (map spec_key (line # lines)))"
    proof -
      have "filter (\<lambda>k. k \<notin> set (map fst obj)) (filter (\<lambda>y. y \<noteq> ?k) (first_occurrences (map spec_key lines)))
            = filter (\<lambda>k. k \<notin> set (map fst obj)) (first_occurrences (map spec_key lines))"
        using kin by (auto intro: filter_cong)
      then show ?thesis using o keys1 kin by simp
    qed
    ultimately show ?thesis by blast
  qed
qed

lemma first_occurrences_set [simp]: "set (first_occurrences xs) = set xs"
  by (induction xs) auto

lemma first_occurrences_distinct [simp]: "distinct (first_occurrences xs)"
  by (induction xs) auto

lemma split_lines_no_newline: "line \<in> set (split_lines s) \<Longrightarrow> CHR 0x0A \<notin> set line"
  by (induction s arbitrary: line) (auto split: list.splits if_splits)

lemma config_get_outcome:
  "config_get git key options w =
     (let opts = extend_defaults options in
      case git (map Str (''config'' # get_flags opts @ [key])) w of
        (result, w') \<Rightarrow>
          (case exec_outcome (Str ''config'') result of
             Inl err \<Rightarrow> if all opts \<or> regex opts then (Inr (Values []), w') else (Inr Null, w')
           | Inr output \<Rightarrow>
               if all opts then (Inr (Values (map Str (split_lines output))), w')
               else if regex opts then
                 (case collect_lines [] (split_lines output) of
                    Inl e \<Rightarrow> (Inl e, w')
                  | Inr obj \<Rightarrow> (Inr (Mapping obj), w'))
               else (Inr (Single output), w')))"
  by (simp add: config_get_def exec_read Let_def split: prod.splits sum.splits)

text \<open>
  What the regex read builds from lines it can take apart. A read with \<^verbatim>\<open>regex\<close> set
  and \<^verbatim>\<open>all\<close> not set, whose command exits with status 0, returns an object when no
  line of the trimmed output holds a carriage return and no line has a key that plain
  objects inherit. The object maps every key of a line, the part before its first space,
  to the rests of the lines with that key, in the order of the lines; a line without a
  space contributes \<^verbatim>\<open>undefined\<close>.
\<close>

lemma regex_read_builds_mapping:
  assumes "regex (extend_defaults options)" and "\<not> all (extend_defaults options)"
    and "git (map Str (''config'' # get_flags (extend_defaults options) @ [key])) w = (result, w')"
    and "status result = Some 0" and "stdout result = Some printed"
    and "\<forall>line\<in>set (split_lines (trimRight printed)).
           CHR 0x0D \<notin> set line \<and> spec_key line \<notin> set object_prototype"
  shows "\<exists>obj. config_get git key options w = (Inr (Mapping obj), w') \<and>
               map_of obj = spec_mapping (split_lines (trimRight printed)) \<and>
               distinct (map fst obj)"
proof -
  let ?lines = "split_lines (trimRight printed)"
  have plain: "\<forall>line\<in>set ?lines. \<not> list_ex line_terminator line \<and> spec_key line \<notin> set object_prototype"
    using assms(6) split_lines_no_newline by (auto simp: list_ex_iff line_terminator_def)
  from collect_lines_spec[OF plain, of "[]"] obtain obj where
    c: "collect_lines [] ?lines = Inr obj" and
    m: "\<forall>k. map_of obj k = (if k \<in> spec_key ` set ?lines then Some (rests k ?lines) else None)" and
    o: "map fst obj = first_occurrences (map spec_key ?lines)"
    by auto
  have out: "exec_outcome (Str ''config'') result = Inr (trimRight printed)"
    using assms(4,5) by (simp add: exec_outcome_def)
  have "config_get git key options w = (Inr (Mapping obj), w')"
    using assms(1,2,3) out c by (simp add: config_get_outcome)
  moreover have "map_of obj = spec_mapping ?lines"
    using m by (auto simp: spec_mapping_def rests_def fun_eq_iff)
  moreover have "distinct (map fst obj)"
    using o by simp
  ultimately show ?thesis by blast
qed


text \<open>
  Claim C4 says that every regex read whose command succeeds returns the mapping of its
  lines. Two reads on the in-memory store whose command exits with status 0 raise a
  \<^verbatim>\<open>TypeError\<close> instead, after the \<^verbatim>\<open>try\<close> block. A value that holds a carriage return
  gives a line that the pattern \<^verbatim>\<open>/^(.*?)( (.*))?$/\<close> does not match, so \<^verbatim>\<open>match\<close> is
  \<^verbatim>\<open>null\<close>. A value that holds a line feed followed by \<^verbatim>\<open>constructor\<close> gives a line
  whose key finds the inherited property, which is not an array.
\<close>

theorem regex_read_raises_type_error:
  "git_store rx_prefix [Str ''config'', Str ''--get-regexp'', Str ''^user'']
     \<lparr>global_file = [], local_file = [(''user.name'', ''Ann'' @ [CHR 0x0D] @ ''Lee'')],
      invocations = []\<rparr>
   = (succeeded (''user.name Ann'' @ [CHR 0x0D] @ ''Lee'' @ [CHR 0x0A]),
      \<lparr>global_file = [], local_file = [(''user.name'', ''Ann'' @ [CHR 0x0D] @ ''Lee'')],
       invocations = [[''config'', ''--get-regexp'', ''^user'']]\<rparr>)
   \<and> fst (config_get (git_store rx_prefix) ''^user'' (Obj (no_options\<lparr>regex := True\<rparr>))
           \<lparr>global_file = [], local_file = [(''user.name'', ''Ann'' @ [CHR 0x0D] @ ''Lee'')],
            invocations = []\<rparr>)
       = Inl TypeError
   \<and> git_store rx_prefix [Str ''config'', Str ''--get-regexp'', Str ''^user'']
     \<lparr>global_file = [], local_file = [(''user.name'', ''Ann'' @ [CHR 0x0A] @ ''constructor'')],
      invocations = []\<rparr>
   = (succeeded (''user.name Ann'' @ [CHR 0x0A] @ ''constructor'' @ [CHR 0x0A]),
      \<lparr>global_file = [], local_file = [(''user.name'', ''Ann'' @ [CHR 0x0A] @ ''constructor'')],
       invocations = [[''config'', ''--get-regexp'', ''^user'']]\<rparr>)
   \<and> fst (config_get (git_store rx_prefix) ''^user'' (Obj (no_options\<lparr>regex := True\<rparr>))
           \<lparr>global_file = [], local_file = [(''user.name'', ''Ann'' @ [CHR 0x0A] @ ''constructor'')],
            invocations = []\<rparr>)
       = Inl TypeError"
  by code_simp

lemma config_get_all_is_array:
  "all (extend_defaults options) \<Longrightarrow> \<exists>xs w'. config_get git key options w = (Inr (Values xs), w')"
  by (auto simp: config_get_outcome Let_def split: prod.splits sum.splits)

text \<open>
  Claim C2, amended. \<^verbatim>\<open>git.config.get\<close> never propagates a failure of the lookup:
  whatever \<^verbatim>\<open>git.exec\<close> raises, the result is \<^verbatim>\<open>null\<close> in single-value mode and the
  empty array when \<^verbatim>\<open>all\<close> or \<^verbatim>\<open>regex\<close> is set. With \<^verbatim>\<open>all\<close> set or \<^verbatim>\<open>regex\<close> not set
  the call returns a value in every case.
\<close>

theorem get_downgrades_lookup_failure:
  "(exec git [Str ''config'', Arr (map Str (get_flags (extend_defaults options))), Str key] w
      = (Inl e, w') \<longrightarrow>
    config_get git key options w =
      (Inr (if all (extend_defaults options) \<or> regex (extend_defaults options)
            then Values [] else Null), w'))
   \<and> (all (extend_defaults options) \<or> \<not> regex (extend_defaults options) \<longrightarrow>
        (\<exists>v w''. config_get git key options w = (Inr v, w'')))"
  by (auto simp: config_get_def Let_def split: prod.splits sum.splits)

text \<open>A witness for C2: an executable that always exits with status 1.\<close>

theorem get_downgrades_lookup_failure_witness:
  "exec (\<lambda>args w. (failed 1, w))
        [Str ''config'', Arr (map Str (get_flags (extend_defaults (Obj (no_options\<lparr>regex := True\<rparr>))))),
         Str ''user.name''] ()
     = (Inl (GitError (Some 1) (Str ''config'') [] ''error''), ())
   \<and> config_get (\<lambda>args w. (failed 1, w)) ''user.name'' (Obj (no_options\<lparr>regex := True\<rparr>)) ()
     = (Inr (Values []), ())
   \<and> (\<exists>v w''. config_get (\<lambda>args w. (failed 1, w)) ''user.name'' (Obj (no_options\<lparr>all := True\<rparr>)) ()
         = (Inr v, w''))"
proof -
  have e: "exec (\<lambda>args w. (failed 1, w))
        [Str ''config'', Arr (map Str (get_flags (extend_defaults (Obj (no_options\<lparr>regex := True\<rparr>))))),
         Str ''user.name''] ()
     = (Inl (GitError (Some 1) (Str ''config'') [] ''error''), ())"
    by (simp add: exec_read)
  show ?thesis
    using e
      get_downgrades_lookup_failure [of "\<lambda>args w. (failed 1, w)" "Obj (no_options\<lparr>regex := True\<rparr>)"
        "''user.name''" "()" "GitError (Some 1) (Str ''config'') [] ''error''" "()"]
      get_downgrades_lookup_failure [of "\<lambda>args w. (failed 1, w)" "Obj (no_options\<lparr>all := True\<rparr>)"
        "''user.name''" "()" "GitError (Some 1) (Str ''config'') [] ''error''" "()"]
    by (simp add: no_options_def)
qed

text \<open>Claim C2 as stated fails: after a failed lookup in regex mode the result is the
  empty array, as with \<^verbatim>\<open>all\<close>, and not an empty mapping.\<close>

theorem get_regex_failure_is_empty_array:
  "config_get (\<lambda>args w. (failed 1, w)) ''user.name'' (Obj (no_options\<lparr>regex := True\<rparr>)) ()
     = (Inr (Values []), ())
   \<and> Values [] \<noteq> Mapping []"
  by (simp add: config_get_outcome no_options_def)

subsection \<open>The in-memory store\<close>

lemma js_String_strs [simp]: "map (js_String \<circ> Str) xs = xs"
  by (induction xs) auto

lemma store_add:
  assumes "\<not> (global opts \<and> local opts)" and "\<not> is_flag key"
  shows "git_store rx (map Str (''config'' # (scope_flags opts @ [''--add'']) @ [key, v])) st =
           (succeeded [],
            put_written opts (written_file opts st @ [(key, v)])
              (logged (''config'' # scope_flags opts @ [''--add'', key, v]) st))"
  using assms
  by (cases "global opts"; cases "local opts")
     (simp_all add: git_store_def store_config_def scope_flags_def is_flag_def known_flags_def
        action_flags_def put_target_def target_file_def put_written_def written_file_def logged_def)

lemma store_unset_all:
  assumes "\<not> (global opts \<and> local opts)" and "\<not> is_flag key"
  shows "git_store rx (map Str (''config'' # ''--unset-all'' # scope_flags opts @ [key])) st =
           (if values_of key (written_file opts st) = []
            then (failed 5, logged (''config'' # ''--unset-all'' # scope_flags opts @ [key]) st)
            else (succeeded [],
                  put_written opts (filter (\<lambda>e. fst e \<noteq> key) (written_file opts st))
                    (logged (''config'' # ''--unset-all'' # scope_flags opts @ [key]) st)))"
  using assms
  by (cases "global opts"; cases "local opts")
     (simp_all add: git_store_def store_config_def scope_flags_def is_flag_def known_flags_def
        action_flags_def put_target_def target_file_def put_written_def written_file_def logged_def
        store_unset_def values_of_def Let_def)

lemma store_get_all:
  assumes "\<not> (global opts \<and> local opts)" and "\<not> is_flag key" and "\<not> regex opts"
  shows "git_store rx (map Str (''config'' # get_flags (opts\<lparr>all := True\<rparr>) @ [key])) st =
           (if values_of key (visible_entries opts st) = [] then failed 1
            else succeeded (print_values (values_of key (visible_entries opts st))),
            logged (''config'' # get_flags (opts\<lparr>all := True\<rparr>) @ [key]) st)"
  using assms
  by (cases "global opts"; cases "local opts")
     (simp_all add: git_store_def store_config_def scope_flags_def get_flags_def is_flag_def
        known_flags_def action_flags_def visible_entries_def logged_def
        store_read_def read_entries_def values_of_def Let_def)

lemma store_unset_one:
  assumes "\<not> (global opts \<and> local opts)" and "\<not> is_flag key"
  shows "git_store rx (map Str (''config'' # ''--unset'' # scope_flags opts @ [key, p])) st =
           (if length (filter (\<lambda>e. fst e = key \<and> rx p (snd e)) (written_file opts st)) = 0
               \<or> 1 < length (filter (\<lambda>e. fst e = key \<and> rx p (snd e)) (written_file opts st))
            then (failed 5, logged (''config'' # ''--unset'' # scope_flags opts @ [key, p]) st)
            else (succeeded [],
                  put_written opts (filter (\<lambda>e. \<not> (fst e = key \<and> rx p (snd e))) (written_file opts st))
                    (logged (''config'' # ''--unset'' # scope_flags opts @ [key, p]) st)))"
  using assms
  by (cases "global opts"; cases "local opts")
     (simp_all add: git_store_def store_config_def scope_flags_def is_flag_def known_flags_def
        action_flags_def put_target_def target_file_def put_written_def written_file_def logged_def
        store_unset_def Let_def)

lemma written_put_written [simp]: "written_file opts (put_written opts es st) = es"
  by (simp add: written_file_def put_written_def)

lemma other_put_written [simp]: "other_file opts (put_written opts es st) = other_file opts st"
  by (simp add: other_file_def put_written_def)

lemma invocations_put_written [simp]: "invocations (put_written opts es st) = invocations st"
  by (simp add: put_written_def)

lemma written_logged [simp]: "written_file opts (logged argv st) = written_file opts st"
  by (simp add: written_file_def logged_def)

lemma other_logged [simp]: "other_file opts (logged argv st) = other_file opts st"
  by (simp add: other_file_def logged_def)

lemma invocations_logged [simp]: "invocations (logged argv st) = invocations st @ [argv]"
  by (simp add: logged_def)

lemma add_each_store:
  assumes "\<not> (global opts \<and> local opts)" and "\<not> is_flag key"
  shows "\<exists>st'. add_each (git_store rx) (scope_flags opts @ [''--add'']) key (map Str vs) st = (Inr (), st')
           \<and> written_file opts st' = written_file opts st @ map (Pair key) vs
           \<and> other_file opts st' = other_file opts st
           \<and> invocations st' =
               invocations st @ map (\<lambda>v. ''config'' # scope_flags opts @ [''--add'', key, v]) vs"
proof (induction vs arbitrary: st)
  case Nil
  then show ?case by simp
next
  case (Cons v vs)
  let ?st1 = "put_written opts (written_file opts st @ [(key, v)])
                (logged (''config'' # scope_flags opts @ [''--add'', key, v]) st)"
  have step: "exec (git_store rx) [Str ''config'', Arr (map Str (scope_flags opts @ [''--add''])), Str key, Str v] st
                = (Inr [], ?st1)"
    unfolding exec_add store_add[OF assms] by (simp add: trimRight_def)
  from Cons.IH[of ?st1] obtain st' where
    "add_each (git_store rx) (scope_flags opts @ [''--add'']) key (map Str vs) ?st1 = (Inr (), st')"
    "written_file opts st' = written_file opts ?st1 @ map (Pair key) vs"
    "other_file opts st' = other_file opts ?st1"
    "invocations st' =
       invocations ?st1 @ map (\<lambda>v. ''config'' # scope_flags opts @ [''--add'', key, v]) vs"
    by blast
  then show ?case using step by simp
qed

lemma config_unset_store:
  assumes "\<not> (global opts \<and> local opts)" and "\<not> is_flag key"
  shows "config_unset (git_store rx) key (Obj opts) st =
           (if values_of key (written_file opts st) = []
            then (Inl (GitError (Some 5) (Str ''config'') [] ''error''),
                  logged (''config'' # ''--unset-all'' # scope_flags opts @ [key]) st)
            else (Inr (),
                  put_written opts (filter (\<lambda>e. fst e \<noteq> key) (written_file opts st))
                    (logged (''config'' # ''--unset-all'' # scope_flags opts @ [key]) st)))"
  using store_unset_all[OF assms, of rx st]
  by (simp add: config_unset_def exec_unset)

lemma values_of_append [simp]: "values_of key (xs @ ys) = values_of key xs @ values_of key ys"
  by (simp add: values_of_def)

lemma values_of_pairs [simp]: "values_of key (map (Pair key) vs) = vs"
  by (induction vs) (auto simp: values_of_def)

lemma values_of_others [simp]: "values_of key (filter (\<lambda>e. fst e \<noteq> key) es) = []"
  by (induction es) (auto simp: values_of_def)

lemma values_of_empty_filter: "values_of key es = [] \<Longrightarrow> filter (\<lambda>e. fst e \<noteq> key) es = es"
  by (induction es) (auto simp: values_of_def split: if_splits)

lemma others_of_pairs [simp]: "filter (\<lambda>e. fst e \<noteq> key) (map (Pair key) vs) = []"
  by (induction vs) auto

text \<open>
  Claim C1. In replace mode, that is without \<^verbatim>\<open>add\<close>, \<^verbatim>\<open>git.config.set\<close> first runs
  \<^verbatim>\<open>git.config.unset\<close> and drops its outcome, error or not, for every executor; then it
  writes the values. On the in-memory store, for a scope that names at most one file, a
  key that is not read as a flag and values that are strings: the removal fails when the
  key has no value in the file, and yet the call returns the requested values; the file
  then holds exactly these values for the key, in order, and its other keys and the other
  file are as before; the invocations are one \<^verbatim>\<open>--unset-all\<close> and then one \<^verbatim>\<open>--add\<close>
  per value, in order.
\<close>

theorem set_replaces_values:
  assumes "\<not> add (extend_defaults options)"
    and "\<not> (global (extend_defaults options) \<and> local (extend_defaults options))"
    and "\<not> is_flag key"
    and "castArray values = map Str vs"
  shows "config_set git key values options w =
           write_values git (scope_flags (extend_defaults options) @ [''--add'']) key
             (castArray values) (snd (config_unset git key (Obj (extend_defaults options)) w))
         \<and> (values_of key (written_file (extend_defaults options) st) = [] \<longrightarrow>
              fst (config_unset (git_store rx) key (Obj (extend_defaults options)) st)
                = Inl (GitError (Some 5) (Str ''config'') [] ''error''))
         \<and> (\<exists>st'. config_set (git_store rx) key values options st = (Inr (map Str vs), st')
              \<and> values_of key (written_file (extend_defaults options) st') = vs
              \<and> filter (\<lambda>e. fst e \<noteq> key) (written_file (extend_defaults options) st')
                  = filter (\<lambda>e. fst e \<noteq> key) (written_file (extend_defaults options) st)
              \<and> other_file (extend_defaults options) st' = other_file (extend_defaults options) st
              \<and> invocations st' =
                  invocations st
                  @ [''config'' # ''--unset-all'' # scope_flags (extend_defaults options) @ [key]]
                  @ map (\<lambda>v. ''config'' # scope_flags (extend_defaults options) @ [''--add'', key, v]) vs)"
proof -
  let ?opts = "extend_defaults options"
  have wf: "\<not> (global ?opts \<and> local ?opts)" by (rule assms(2))
  have generic: "config_set git key values options w =
           write_values git (scope_flags ?opts @ [''--add'']) key
             (castArray values) (snd (config_unset git key (Obj ?opts) w))"
    using assms(1) by (simp add: config_set_def Let_def split: prod.splits)
  obtain r st1 where u: "config_unset (git_store rx) key (Obj ?opts) st = (r, st1)"
    by (cases "config_unset (git_store rx) key (Obj ?opts) st")
  have st1: "values_of key (written_file ?opts st1) = []
             \<and> filter (\<lambda>e. fst e \<noteq> key) (written_file ?opts st1) = filter (\<lambda>e. fst e \<noteq> key) (written_file ?opts st)
             \<and> other_file ?opts st1 = other_file ?opts st
             \<and> invocations st1 = invocations st @ [''config'' # ''--unset-all'' # scope_flags ?opts @ [key]]"
    using u config_unset_store[OF wf assms(3), of rx st]
    by (auto split: if_splits)
  from add_each_store[OF wf assms(3), of rx vs st1] obtain st' where
    a: "add_each (git_store rx) (scope_flags ?opts @ [''--add'']) key (map Str vs) st1 = (Inr (), st')"
    and f: "written_file ?opts st' = written_file ?opts st1 @ map (Pair key) vs"
    and g: "other_file ?opts st' = other_file ?opts st1"
    and i: "invocations st' =
               invocations st1 @ map (\<lambda>v. ''config'' # scope_flags ?opts @ [''--add'', key, v]) vs"
    by blast
  have "config_set (git_store rx) key values options st = (Inr (map Str vs), st')"
    using assms(1,4) u a by (simp add: config_set_def Let_def write_values_def)
  moreover have "values_of key (written_file ?opts st') = vs" using f st1 by simp
  moreover have "filter (\<lambda>e. fst e \<noteq> key) (written_file ?opts st')
                  = filter (\<lambda>e. fst e \<noteq> key) (written_file ?opts st)" using f st1 by simp
  moreover have "other_file ?opts st' = other_file ?opts st" using g st1 by simp
  moreover have "invocations st' =
                  invocations st
                  @ [''config'' # ''--unset-all'' # scope_flags ?opts @ [key]]
                  @ map (\<lambda>v. ''config'' # scope_flags ?opts @ [''--add'', key, v]) vs"
    using i st1 by simp
  moreover have "values_of key (written_file ?opts st) = [] \<longrightarrow>
              fst (config_unset (git_store rx) key (Obj ?opts) st)
                = Inl (GitError (Some 5) (Str ''config'') [] ''error'')"
    using config_unset_store[OF wf assms(3), of rx st] by simp
  ultimately show ?thesis using generic by blast
qed

text \<open>A witness for C1: a first write to an empty store, where the removal fails.\<close>

theorem set_replaces_values_witness:
  "\<not> add (extend_defaults Undefined)
   \<and> \<not> is_flag ''user.name''
   \<and> castArray (Str ''Bob'') = map Str [''Bob'']
   \<and> fst (config_unset (git_store rx_exact) ''user.name'' (Obj (extend_defaults Undefined)) empty_store)
       = Inl (GitError (Some 5) (Str ''config'') [] ''error'')
   \<and> (\<exists>st'. config_set (git_store rx_exact) ''user.name'' (Str ''Bob'') Undefined empty_store
               = (Inr [Str ''Bob''], st')
           \<and> values_of ''user.name'' (local_file st') = [''Bob'']
           \<and> invocations st' = [[''config'', ''--unset-all'', ''user.name''],
                                 [''config'', ''--add'', ''user.name'', ''Bob'']])"
proof -
  have h1: "\<not> add (extend_defaults Undefined)" by (simp add: no_options_def)
  have h2: "\<not> (global (extend_defaults Undefined) \<and> local (extend_defaults Undefined))"
    by (simp add: no_options_def)
  have h3: "\<not> is_flag ''user.name''" by (simp add: is_flag_def)
  have h4: "castArray (Str ''Bob'') = map Str [''Bob'']" by simp
  have e: "values_of ''user.name'' (written_file (extend_defaults Undefined) empty_store) = []"
    by (simp add: values_of_def written_file_def empty_store_def no_options_def)
  note t = set_replaces_values [OF h1 h2 h3 h4, of "\<lambda>args w. (failed 1, w)" "()" empty_store rx_exact]
  from t e h1 h3 h4 show ?thesis
    by (auto simp add: written_file_def scope_flags_def no_options_def empty_store_def)
qed

subsection \<open>What a write returns\<close>

text \<open>
  Claim C3, amended. \<^verbatim>\<open>git.config.set\<close> returns the list of the values it wrote. In
  replace mode and in plain add mode that is the requested list. With \<^verbatim>\<open>add\<close> and
  \<^verbatim>\<open>unique\<close> it is the requested list without the values that the read of all current
  values returned, in the requested order.
\<close>

theorem set_returns_written_values:
  "\<exists>current.
     (add (extend_defaults options) \<and> unique (extend_defaults options) \<longrightarrow>
        fst (config_get git key (Obj ((extend_defaults options)\<lparr>all := True\<rparr>)) w)
          = Inr (Values current))
     \<and> (config_set git key values options w = (Inr written, w') \<longrightarrow>
          written = (if add (extend_defaults options) \<and> unique (extend_defaults options)
                     then filter (\<lambda>v. v \<notin> set current) (castArray values)
                     else castArray values))"
proof (cases "add (extend_defaults options) \<and> unique (extend_defaults options)")
  case True
  let ?getOptions = "Obj ((extend_defaults options)\<lparr>all := True\<rparr>)"
  have "all (extend_defaults ?getOptions)" by simp
  from config_get_all_is_array [OF this, of git key w] obtain current w1 where
    g: "config_get git key ?getOptions w = (Inr (Values current), w1)" by blast
  have "config_set git key values options w = (Inr written, w') \<longrightarrow>
          written = filter (\<lambda>v. v \<notin> set current) (castArray values)"
    using True g
    by (auto simp: config_set_def Let_def write_values_def difference_def split: prod.splits sum.splits)
  then show ?thesis using True g by auto
next
  case False
  have "config_set git key values options w = (Inr written, w') \<longrightarrow> written = castArray values"
    using False
    by (auto simp: config_set_def Let_def write_values_def split: prod.splits sum.splits if_splits)
  then show ?thesis using False by auto
qed

text \<open>Claim C3 as stated fails: with \<^verbatim>\<open>add\<close> and \<^verbatim>\<open>unique\<close>, a requested value that
  the key already holds is not in the returned list.\<close>

theorem set_unique_returns_filtered_list:
  "fst (config_set (git_store rx_exact) ''k'' (Arr [Str ''a'', Str ''b''])
         (Obj (no_options\<lparr>add := True, unique := True\<rparr>))
         \<lparr>global_file = [], local_file = [(''k'', ''a'')], invocations = []\<rparr>)
     = Inr [Str ''b'']
   \<and> [Str ''b''] \<noteq> castArray (Arr [Str ''a'', Str ''b''])"
  by code_simp

text \<open>A witness for C3, on the store of the counterexample.\<close>

theorem set_returns_written_values_witness:
  "config_set (git_store rx_exact) ''k'' (Arr [Str ''a'', Str ''b''])
         (Obj (no_options\<lparr>add := True, unique := True\<rparr>))
         \<lparr>global_file = [], local_file = [(''k'', ''a'')], invocations = []\<rparr>
     = (Inr [Str ''b''],
        \<lparr>global_file = [], local_file = [(''k'', ''a''), (''k'', ''b'')],
         invocations = [[''config'', ''--get-all'', ''k''], [''config'', ''--add'', ''k'', ''b'']]\<rparr>)
   \<and> fst (config_get (git_store rx_exact) ''k''
            (Obj ((extend_defaults (Obj (no_options\<lparr>add := True, unique := True\<rparr>)))\<lparr>all := True\<rparr>))
            \<lparr>global_file = [], local_file = [(''k'', ''a'')], invocations = []\<rparr>)
       = Inr (Values [Str ''a''])
   \<and> [Str ''b''] = filter (\<lambda>v. v \<notin> set [Str ''a'']) (castArray (Arr [Str ''a'', Str ''b'']))"
proof -
  let ?st = "\<lparr>global_file = [], local_file = [(''k'', ''a'')], invocations = []\<rparr>"
  let ?st' = "\<lparr>global_file = [], local_file = [(''k'', ''a''), (''k'', ''b'')],
         invocations = [[''config'', ''--get-all'', ''k''], [''config'', ''--add'', ''k'', ''b'']]\<rparr>"
  let ?options = "Obj (no_options\<lparr>add := True, unique := True\<rparr>)"
  have s: "config_set (git_store rx_exact) ''k'' (Arr [Str ''a'', Str ''b'']) ?options ?st
             = (Inr [Str ''b''], ?st')"
    by code_simp
  have g: "fst (config_get (git_store rx_exact) ''k''
            (Obj ((extend_defaults ?options)\<lparr>all := True\<rparr>)) ?st) = Inr (Values [Str ''a''])"
    by code_simp
  from set_returns_written_values [of ?options "git_store rx_exact" "''k''" ?st
         "Arr [Str ''a'', Str ''b'']" "[Str ''b'']" ?st'] s g
  show ?thesis by auto
qed

subsection \<open>The combined entry point\<close>

text \<open>
  Claim C10, amended. \<^verbatim>\<open>git.config\<close> called with the key alone reads. Called with two
  arguments of which the second is neither a string nor an array it reads, with the
  second argument as options. Called with a string or an array as second argument it
  writes through \<^verbatim>\<open>git.config.set\<close> with the third argument as options, and returns
  what that returns; the write is in replace mode, removal first and then the values,
  unless these options set \<^verbatim>\<open>add\<close>.
\<close>

theorem config_dispatch:
  "config git key [] w = config_get git key Undefined w
   \<and> (\<not> isString second \<and> \<not> isArray second \<longrightarrow>
        config git key [second] w = config_get git key second w)
   \<and> (isString second \<or> isArray second \<longrightarrow>
        config git key (second # rest) w =
          (case config_set git key second (nth_argument rest 0) w of
             (Inl e, w') \<Rightarrow> (Inl e, w')
           | (Inr written, w') \<Rightarrow> (Inr (Values written), w')))
   \<and> (\<not> add (extend_defaults (nth_argument rest 0)) \<longrightarrow>
        config_set git key second (nth_argument rest 0) w =
          write_values git (scope_flags (extend_defaults (nth_argument rest 0)) @ [''--add'']) key
            (castArray second)
            (snd (config_unset git key (Obj (extend_defaults (nth_argument rest 0))) w)))"
proof -
  have a: "config git key [] w = config_get git key Undefined w"
    by (simp add: config_def)
  have b: "\<not> isString second \<and> \<not> isArray second \<longrightarrow>
        config git key [second] w = config_get git key second w"
    by (simp add: config_def)
  have c: "isString second \<or> isArray second \<longrightarrow>
        config git key (second # rest) w =
          (case config_set git key second (nth_argument rest 0) w of
             (Inl e, w') \<Rightarrow> (Inl e, w')
           | (Inr written, w') \<Rightarrow> (Inr (Values written), w'))"
    by (cases second; cases rest) (simp_all add: config_def)
  have d: "\<not> add (extend_defaults (nth_argument rest 0)) \<longrightarrow>
        config_set git key second (nth_argument rest 0) w =
          write_values git (scope_flags (extend_defaults (nth_argument rest 0)) @ [''--add'']) key
            (castArray second)
            (snd (config_unset git key (Obj (extend_defaults (nth_argument rest 0))) w))"
    by (simp add: config_set_def Let_def split: prod.splits)
  from a b c d show ?thesis by blast
qed

text \<open>Claim C10 as stated fails: with a third argument that sets \<^verbatim>\<open>add\<close>, the write
  appends and the value that was there stays.\<close>

theorem config_with_add_option_appends:
  "config (git_store rx_exact) ''k'' [Str ''b'', Obj (no_options\<lparr>add := True\<rparr>)]
     \<lparr>global_file = [], local_file = [(''k'', ''a'')], invocations = []\<rparr>
   = (Inr (Values [Str ''b'']),
      \<lparr>global_file = [], local_file = [(''k'', ''a''), (''k'', ''b'')],
       invocations = [[''config'', ''--add'', ''k'', ''b'']]\<rparr>)"
  by code_simp

text \<open>A witness for C10: a read with options and a write on the empty store.\<close>

theorem config_dispatch_witness:
  "\<not> isString (Obj (no_options\<lparr>all := True\<rparr>)) \<and> \<not> isArray (Obj (no_options\<lparr>all := True\<rparr>))
   \<and> config (git_store rx_exact) ''k'' [Obj (no_options\<lparr>all := True\<rparr>)] empty_store
       = config_get (git_store rx_exact) ''k'' (Obj (no_options\<lparr>all := True\<rparr>)) empty_store
   \<and> isString (Str ''v'')
   \<and> config (git_store rx_exact) ''k'' [Str ''v''] empty_store
       = (Inr (Values [Str ''v'']),
          \<lparr>global_file = [], local_file = [(''k'', ''v'')],
           invocations = [[''config'', ''--unset-all'', ''k''], [''config'', ''--add'', ''k'', ''v'']]\<rparr>)
   \<and> \<not> add (extend_defaults (nth_argument [] 0))"
proof -
  have s: "config_set (git_store rx_exact) ''k'' (Str ''v'') (nth_argument [] 0) empty_store
     = (Inr [Str ''v''],
          \<lparr>global_file = [], local_file = [(''k'', ''v'')],
           invocations = [[''config'', ''--unset-all'', ''k''], [''config'', ''--add'', ''k'', ''v'']]\<rparr>)"
    by code_simp
  have n: "\<not> add (extend_defaults (nth_argument [] 0))" by (simp add: no_options_def)
  from config_dispatch [of "git_store rx_exact" "''k''" empty_store "Obj (no_options\<lparr>all := True\<rparr>)" "[]"]
       config_dispatch [of "git_store rx_exact" "''k''" empty_store "Str ''v''" "[]"] s n
  show ?thesis by simp
qed

subsection \<open>Subsections\<close>

lemma dotted_not_array_index: "CHR ''.'' \<in> set k \<Longrightarrow> \<not> is_array_index k"
proof
  assume d: "CHR ''.'' \<in> set k" and i: "is_array_index k"
  from i have "list_all is_digit k" by (simp add: is_array_index_def)
  with d have "is_digit CHR ''.''" by (simp add: list_all_iff)
  then show False by (simp add: is_digit_def)
qed

lemma dotted_not_inherited: "CHR ''.'' \<in> set k \<Longrightarrow> k \<notin> set object_prototype"
  by (auto simp: object_prototype_def)

lemma own_keys_creation_order:
  "\<forall>k\<in>set (map fst obj). \<not> is_array_index k \<Longrightarrow> own_keys obj = map fst obj"
proof -
  assume a: "\<forall>k\<in>set (map fst obj). \<not> is_array_index k"
  then have "filter is_array_index (map fst obj) = []" by (auto simp: filter_empty_conv)
  moreover have "filter (\<lambda>k. \<not> is_array_index k) (map fst obj) = map fst obj"
    using a by (auto simp: filter_id_conv)
  ultimately show ?thesis by (simp add: own_keys_def Let_def)
qed

lemma strip_leaf_last_dot: "CHR ''.'' \<notin> set leaf \<Longrightarrow> strip_leaf (sub @ ''.'' @ leaf) = sub"
  by (induction sub) auto

lemma subsection_name_of_key:
  "CHR ''.'' \<notin> set leaf \<Longrightarrow> subsection_name section (section @ ''.'' @ sub @ ''.'' @ leaf) = sub"
  using strip_leaf_last_dot [of leaf sub] by (simp add: subsection_name_def)

lemma config_with_options:
  "config git key [Obj opts] w = config_get git key (Obj opts) w"
  by (simp add: config_def)

text \<open>
  Claim C7. \<^verbatim>\<open>git.config.subsections\<close> runs the regex read with the pattern
  \<^verbatim>\<open>^section\.\<close> in the scope of the options. When the command succeeds with lines whose
  keys hold a dot (and no carriage return), the result is the list of the distinct keys
  of the lines in the order of their first line, each mapped by dropping as many
  characters as the section and one more, and then the last dot with what follows it. A
  key made of the section, a dot, a name, a dot and a leaf without dots is mapped to the
  name. For the three keys \<^verbatim>\<open>remote.origin.url\<close>, \<^verbatim>\<open>remote.origin.fetch\<close> and
  \<^verbatim>\<open>remote.upstream.url\<close> the result is \<^verbatim>\<open>origin\<close>, \<^verbatim>\<open>origin\<close>, \<^verbatim>\<open>upstream\<close>: the
  elements of \<^verbatim>\<open>["origin", "upstream"]\<close>, with the name repeated for each leaf.
\<close>

theorem subsections_of_regex_read:
  assumes "\<not> all (extend_defaults options)"
    and "git (map Str (''config'' # scope_flags (extend_defaults options)
                        @ [''--get-regexp'', ''^'' @ section @ [CHR 0x5C, CHR ''.'']])) w
           = (result, w')"
    and "status result = Some 0" and "stdout result = Some printed"
    and "\<forall>line\<in>set (split_lines (trimRight printed)).
           CHR 0x0D \<notin> set line \<and> CHR ''.'' \<in> set (spec_key line)"
  shows "config_subsections git section options w =
           (Inr (map (subsection_name section)
                   (first_occurrences (map spec_key (split_lines (trimRight printed))))), w')
         \<and> (CHR ''.'' \<notin> set leaf \<longrightarrow>
              subsection_name section (section @ ''.'' @ sub @ ''.'' @ leaf) = sub)
         \<and> (section = ''remote'' \<and>
            map spec_key (split_lines (trimRight printed))
              = [''remote.origin.url'', ''remote.origin.fetch'', ''remote.upstream.url''] \<longrightarrow>
              fst (config_subsections git section options w)
                = Inr [''origin'', ''origin'', ''upstream'']
              \<and> set [''origin'', ''origin'', ''upstream''] = set [''origin'', ''upstream''])"
proof -
  let ?opts = "(extend_defaults options)\<lparr>regex := True\<rparr>"
  let ?key = "''^'' @ section @ [CHR 0x5C, CHR ''.'']"
  let ?lines = "split_lines (trimRight printed)"
  have flags: "get_flags (extend_defaults (Obj ?opts)) = scope_flags (extend_defaults options) @ [''--get-regexp'']"
    using assms(1) by (simp add: get_flags_def scope_flags_def)
  have plain: "\<forall>line\<in>set ?lines. \<not> list_ex line_terminator line \<and> spec_key line \<notin> set object_prototype"
    using assms(5) split_lines_no_newline dotted_not_inherited
    by (auto simp: list_ex_iff line_terminator_def)
  from collect_lines_spec [OF plain, of "[]"] obtain obj where
    c: "collect_lines [] ?lines = Inr obj" and
    o: "map fst obj = first_occurrences (map spec_key ?lines)"
    by auto
  have out: "exec_outcome (Str ''config'') result = Inr (trimRight printed)"
    using assms(3,4) by (simp add: exec_outcome_def)
  have run: "git (map Str (''config'' # get_flags (extend_defaults (Obj ?opts)) @ [?key])) w = (result, w')"
    using assms(2) flags by simp
  have g: "config_get git ?key (Obj ?opts) w = (Inr (Mapping obj), w')"
    unfolding config_get_outcome Let_def run using assms(1) out c by simp
  have "\<forall>k\<in>set (map fst obj). \<not> is_array_index k"
    unfolding o using assms(5) dotted_not_array_index by auto
  then have keys: "js_keys (Mapping obj) = first_occurrences (map spec_key ?lines)"
    using o by (simp add: own_keys_creation_order)
  have main: "config_subsections git section options w =
           (Inr (map (subsection_name section) (first_occurrences (map spec_key ?lines))), w')"
    using g keys by (simp add: config_subsections_def config_with_options Let_def)
  have shape: "CHR ''.'' \<notin> set leaf \<longrightarrow>
              subsection_name section (section @ ''.'' @ sub @ ''.'' @ leaf) = sub"
    using subsection_name_of_key [of leaf "section" sub] by blast
  have example: "section = ''remote'' \<and>
            map spec_key ?lines
              = [''remote.origin.url'', ''remote.origin.fetch'', ''remote.upstream.url''] \<longrightarrow>
              fst (config_subsections git section options w)
                = Inr [''origin'', ''origin'', ''upstream'']
              \<and> set [''origin'', ''origin'', ''upstream''] = set [''origin'', ''upstream'']"
    unfolding main by (auto simp: subsection_name_def)
  from main shape example show ?thesis by blast
qed

subsection \<open>Reading all values from the store\<close>

lemma split_lines_single: "CHR 0x0A \<notin> set v \<Longrightarrow> split_lines v = [v]"
  by (induction v) auto

lemma split_lines_line:
  "CHR 0x0A \<notin> set v \<Longrightarrow> split_lines (v @ CHR 0x0A # rest) = v # split_lines rest"
  by (induction v) auto

lemma trimRight_plain_newline: "plain v \<Longrightarrow> trimRight (p @ v @ [CHR 0x0A]) = p @ v"
proof -
  assume a: "plain v"
  then obtain c cs where r: "rev v = c # cs" and w: "\<not> is_white c"
    by (cases v rule: rev_cases) (auto simp: plain_def)
  have "is_white CHR 0x0A" by (simp add: is_white_def)
  then have "dropWhile is_white (rev (p @ v @ [CHR 0x0A])) = rev v @ rev p"
    using r w by simp
  then show ?thesis by (simp add: trimRight_def)
qed

lemma print_values_snoc: "print_values (xs @ [x]) = print_values xs @ x @ [CHR 0x0A]"
  by (simp add: print_values_def)

lemma split_lines_print:
  "\<forall>x\<in>set xs. CHR 0x0A \<notin> set x \<Longrightarrow> CHR 0x0A \<notin> set y \<Longrightarrow>
   split_lines (print_values xs @ y) = xs @ [y]"
  by (induction xs) (auto simp: print_values_def split_lines_single split_lines_line)

lemma read_roundtrip:
  assumes "\<forall>x\<in>set xs. plain x" and "xs \<noteq> []"
  shows "split_lines (trimRight (print_values xs)) = xs"
proof -
  from assms(2) obtain ys y where xs: "xs = ys @ [y]" by (cases xs rule: rev_cases) auto
  have py: "plain y" and pys: "\<forall>x\<in>set ys. CHR 0x0A \<notin> set x"
    using assms(1) xs by (auto simp: plain_def)
  have "trimRight (print_values xs) = print_values ys @ y"
    unfolding xs print_values_snoc using py by (rule trimRight_plain_newline)
  moreover have "split_lines (print_values ys @ y) = ys @ [y]"
    using pys py by (simp add: split_lines_print plain_def)
  ultimately show ?thesis using xs by simp
qed

lemma config_get_all_store:
  assumes "\<not> (global opts \<and> local opts)" and "\<not> is_flag key" and "\<not> regex opts"
    and "\<forall>x\<in>set (values_of key (visible_entries opts st)). plain x"
  shows "config_get (git_store rx) key (Obj (opts\<lparr>all := True\<rparr>)) st =
           (Inr (Values (map Str (values_of key (visible_entries opts st)))),
            logged (''config'' # get_flags (opts\<lparr>all := True\<rparr>) @ [key]) st)"
proof (cases "values_of key (visible_entries opts st) = []")
  case True
  then show ?thesis
    unfolding config_get_outcome Let_def extend_defaults.simps store_get_all [OF assms(1-3)]
    by simp
next
  case False
  then show ?thesis
    unfolding config_get_outcome Let_def extend_defaults.simps store_get_all [OF assms(1-3)]
    using read_roundtrip [OF assms(4) False] by simp
qed

subsection \<open>Adding unique values\<close>

lemma visible_logged [simp]: "visible_entries opts (logged argv st) = visible_entries opts st"
  by (simp add: visible_entries_def logged_def)

lemma visible_after_append:
  assumes "\<not> (global opts \<and> local opts)"
    and "written_file opts st' = written_file opts st @ es"
    and "other_file opts st' = other_file opts st"
  shows "visible_entries opts st' = visible_entries opts st @ es"
  using assms by (auto simp: visible_entries_def written_file_def other_file_def split: if_splits)

lemma files_of_written_other:
  "written_file opts st' = written_file opts st \<Longrightarrow> other_file opts st' = other_file opts st \<Longrightarrow>
   global_file st' = global_file st \<and> local_file st' = local_file st"
  by (auto simp: written_file_def other_file_def split: if_splits)

lemma difference_strs:
  "difference (map Str vs) (map Str cur) = map Str (filter (\<lambda>v. v \<notin> set cur) vs)"
  by (induction vs) (auto simp: difference_def)

lemma count_list_distinct: "distinct xs \<Longrightarrow> x \<in> set xs \<Longrightarrow> count_list xs x = 1"
  by (induction xs) auto

lemma set_unique_store:
  assumes "add (extend_defaults options)" and "unique (extend_defaults options)"
    and "\<not> regex (extend_defaults options)"
    and "\<not> (global (extend_defaults options) \<and> local (extend_defaults options))"
    and "\<not> is_flag key"
    and "castArray values = map Str vs"
    and "\<forall>x\<in>set (values_of key (visible_entries (extend_defaults options) st)). plain x"
  shows "\<exists>st'. config_set (git_store rx) key values options st =
                 (Inr (map Str (filter (\<lambda>v. v \<notin> set (values_of key (visible_entries (extend_defaults options) st))) vs)), st')
           \<and> written_file (extend_defaults options) st' =
               written_file (extend_defaults options) st
               @ map (Pair key) (filter (\<lambda>v. v \<notin> set (values_of key (visible_entries (extend_defaults options) st))) vs)
           \<and> other_file (extend_defaults options) st' = other_file (extend_defaults options) st"
proof -
  let ?opts = "extend_defaults options"
  let ?cur = "values_of key (visible_entries ?opts st)"
  let ?new = "filter (\<lambda>v. v \<notin> set ?cur) vs"
  let ?st0 = "logged (''config'' # get_flags (?opts\<lparr>all := True\<rparr>) @ [key]) st"
  have g: "config_get (git_store rx) key (Obj (?opts\<lparr>all := True\<rparr>)) st = (Inr (Values (map Str ?cur)), ?st0)"
    by (rule config_get_all_store [OF assms(4,5,3,7)])
  from add_each_store [OF assms(4,5), of rx ?new ?st0] obtain st' where
    a: "add_each (git_store rx) (scope_flags ?opts @ [''--add'']) key (map Str ?new) ?st0 = (Inr (), st')"
    and f: "written_file ?opts st' = written_file ?opts ?st0 @ map (Pair key) ?new"
    and o: "other_file ?opts st' = other_file ?opts ?st0"
    by blast
  have "config_set (git_store rx) key values options st = (Inr (map Str ?new), st')"
    using assms(1,2,6) g a
    by (simp add: config_set_def Let_def write_values_def difference_strs)
  then show ?thesis using f o by simp
qed

text \<open>
  Where adding unique values is idempotent. On the in-memory store, for options with
  \<^verbatim>\<open>add\<close> and \<^verbatim>\<open>unique\<close>, for requested values without repetition, and when the values
  of the key that the scope sees and the requested values are all plain: the first
  application returns the requested values that the key did not hold; the second returns
  the empty list and leaves both files as they are; a read of all values in the same
  scope then gives the values from before followed by the added ones.
\<close>

lemma unique_add_is_idempotent:
  assumes "add (extend_defaults options)" and "unique (extend_defaults options)"
    and "\<not> regex (extend_defaults options)"
    and "\<not> (global (extend_defaults options) \<and> local (extend_defaults options))"
    and "\<not> is_flag key"
    and "castArray values = map Str vs" and "distinct vs"
    and "\<forall>v\<in>set before \<union> set vs. plain v"
    and "before = values_of key (visible_entries (extend_defaults options) st)"
    and "config_set (git_store rx) key values options st = (r1, st1)"
    and "config_set (git_store rx) key values options st1 = (r2, st2)"
  shows "r1 = Inr (map Str (filter (\<lambda>v. v \<notin> set before) vs))
         \<and> r2 = Inr []
         \<and> global_file st2 = global_file st1 \<and> local_file st2 = local_file st1
         \<and> fst (config_get (git_store rx) key (Obj ((extend_defaults options)\<lparr>all := True\<rparr>)) st2)
             = Inr (Values (map Str (before @ filter (\<lambda>v. v \<notin> set before) vs)))
         \<and> (\<forall>v\<in>set vs. count_list (before @ filter (\<lambda>v. v \<notin> set before) vs) v
                           = (if v \<in> set before then count_list before v else 1))"
proof -
  let ?opts = "extend_defaults options"
  let ?new = "filter (\<lambda>v. v \<notin> set before) vs"
  have p0: "\<forall>x\<in>set (values_of key (visible_entries ?opts st)). plain x"
    using assms(8,9) by simp
  from set_unique_store [OF assms(1-6) p0, of rx] assms(9,10) have
    r1: "r1 = Inr (map Str ?new)" and
    f1: "written_file ?opts st1 = written_file ?opts st @ map (Pair key) ?new" and
    o1: "other_file ?opts st1 = other_file ?opts st"
    by auto
  have v1: "values_of key (visible_entries ?opts st1) = before @ ?new"
    using visible_after_append [OF assms(4) f1 o1] assms(9) by simp
  have p1: "\<forall>x\<in>set (values_of key (visible_entries ?opts st1)). plain x"
    unfolding v1 using assms(8) by auto
  have none: "filter (\<lambda>v. v \<notin> set (values_of key (visible_entries ?opts st1))) vs = []"
    unfolding v1 by (auto simp: filter_empty_conv)
  from set_unique_store [OF assms(1-6) p1, of rx] assms(11) none have
    r2: "r2 = Inr []" and
    f2: "written_file ?opts st2 = written_file ?opts st1" and
    o2: "other_file ?opts st2 = other_file ?opts st1"
    by auto
  have files: "global_file st2 = global_file st1 \<and> local_file st2 = local_file st1"
    using files_of_written_other [OF f2 o2] .
  have "visible_entries ?opts st2 = visible_entries ?opts st1"
    using files by (simp add: visible_entries_def)
  then have v2: "values_of key (visible_entries ?opts st2) = before @ ?new"
    using v1 by simp
  have p2: "\<forall>x\<in>set (values_of key (visible_entries ?opts st2)). plain x"
    unfolding v2 using assms(8) by auto
  have g: "fst (config_get (git_store rx) key (Obj (?opts\<lparr>all := True\<rparr>)) st2)
             = Inr (Values (map Str (before @ ?new)))"
    using config_get_all_store [OF assms(4,5,3) p2, of rx] v2 by simp
  have cnt: "\<forall>v\<in>set vs. count_list (before @ ?new) v = (if v \<in> set before then count_list before v else 1)"
  proof
    fix v assume vin: "v \<in> set vs"
    have d: "distinct ?new" using assms(7) by simp
    show "count_list (before @ ?new) v = (if v \<in> set before then count_list before v else 1)"
    proof (cases "v \<in> set before")
      case True
      then have "v \<notin> set ?new" by simp
      then show ?thesis using True by (simp add: count_list_0_iff)
    next
      case False
      then have "v \<in> set ?new" using vin by simp
      then have "count_list ?new v = 1" using d by (simp add: count_list_distinct)
      moreover have "count_list before v = 0" using False by (simp add: count_list_0_iff)
      ultimately show ?thesis using False by simp
    qed
  qed
  from r1 r2 files g cnt show ?thesis by blast
qed

subsection \<open>Removing matching values\<close>

lemma filter_not_member_filter:
  "x \<in> set res \<Longrightarrow> filter (\<lambda>v. v \<notin> set res) (filter (\<lambda>y. y \<noteq> x) xs) = filter (\<lambda>v. v \<notin> set res) xs"
  by (induction xs) auto

lemma intersection_from_first_occurrences:
  "intersection_from res xs ys =
     res @ filter (\<lambda>v. v \<notin> set res) (first_occurrences (filter (\<lambda>v. v \<in> set ys) xs))"
proof (induction xs arbitrary: res)
  case Nil
  then show ?case by simp
next
  case (Cons x xs)
  show ?case
  proof (cases "x \<in> set ys")
    case False
    then show ?thesis using Cons.IH [of res] by simp
  next
    case True
    show ?thesis
    proof (cases "x \<in> set res")
      case True
      have "intersection_from res (x # xs) ys = intersection_from res xs ys"
        using True by simp
      also have "\<dots> = res @ filter (\<lambda>v. v \<notin> set res) (first_occurrences (filter (\<lambda>v. v \<in> set ys) xs))"
        by (rule Cons.IH)
      also have "\<dots> = res @ filter (\<lambda>v. v \<notin> set res)
                            (first_occurrences (filter (\<lambda>v. v \<in> set ys) (x # xs)))"
        using True \<open>x \<in> set ys\<close> by (auto intro: filter_cong)
      finally show ?thesis .
    next
      case False
      have "filter (\<lambda>v. v \<notin> set (res @ [x])) (first_occurrences (filter (\<lambda>v. v \<in> set ys) xs))
            = filter (\<lambda>v. v \<notin> set res) (filter (\<lambda>y. y \<noteq> x) (first_occurrences (filter (\<lambda>v. v \<in> set ys) xs)))"
        by (auto intro: filter_cong)
      then show ?thesis using Cons.IH [of "res @ [x]"] False \<open>x \<in> set ys\<close> by simp
    qed
  qed
qed

lemma first_occurrences_map_Str: "first_occurrences (map Str xs) = map Str (first_occurrences xs)"
  by (induction xs) (auto simp: filter_map comp_def)

lemma filter_member_map_Str:
  "filter (\<lambda>v. v \<in> set (map Str cur)) (map Str vs) = map Str (filter (\<lambda>v. v \<in> set cur) vs)"
  by (induction vs) auto

lemma intersection_strs:
  "intersection (map Str vs) (map Str cur) = map Str (first_occurrences (filter (\<lambda>v. v \<in> set cur) vs))"
  unfolding intersection_def intersection_from_first_occurrences filter_member_map_Str
    first_occurrences_map_Str
  by simp

lemma length_filter_entries:
  "length (filter (\<lambda>e. fst e = key \<and> snd e = v) es) = count_list (values_of key es) v"
  by (induction es) (auto simp: values_of_def)

lemma values_of_filter:
  "values_of key (filter (\<lambda>e. \<not> (fst e = key \<and> P (snd e))) es) = filter (\<lambda>u. \<not> P u) (values_of key es)"
  by (induction es) (auto simp: values_of_def)

lemma count_list_filter_other: "u \<noteq> v \<Longrightarrow> count_list (filter (\<lambda>x. x \<noteq> v) xs) u = count_list xs u"
  by (induction xs) auto

lemma unset_each_store:
  assumes "\<not> (global opts \<and> local opts)" and "\<not> is_flag key"
  shows "distinct us \<Longrightarrow>
         \<forall>v\<in>set us. count_list (values_of key (written_file opts st)) v = 1 \<Longrightarrow>
         \<forall>v\<in>set us. \<forall>u\<in>set (values_of key (written_file opts st)). rx (''^'' @ v @ ''$'') u = (u = v) \<Longrightarrow>
         \<exists>st'. unset_each (git_store rx) (scope_flags opts) key (map Str us) st = (Inr (), st')
           \<and> written_file opts st' =
               filter (\<lambda>e. \<not> (fst e = key \<and> snd e \<in> set us)) (written_file opts st)
           \<and> other_file opts st' = other_file opts st
           \<and> invocations st' =
               invocations st
               @ map (\<lambda>v. ''config'' # ''--unset'' # scope_flags opts @ [key, ''^'' @ v @ ''$'']) us"
proof (induction us arbitrary: st)
  case Nil
  then show ?case by simp
next
  case (Cons v us)
  let ?p = "''^'' @ v @ ''$''"
  let ?es = "written_file opts st"
  let ?argv = "''config'' # ''--unset'' # scope_flags opts @ [key, ?p]"
  have same: "filter (\<lambda>e. fst e = key \<and> rx ?p (snd e)) ?es = filter (\<lambda>e. fst e = key \<and> snd e = v) ?es"
    using Cons.prems(3) by (intro filter_cong) (auto simp: values_of_def)
  have one: "length (filter (\<lambda>e. fst e = key \<and> rx ?p (snd e)) ?es) = 1"
    unfolding same length_filter_entries using Cons.prems(2) by simp
  have keep: "filter (\<lambda>e. \<not> (fst e = key \<and> rx ?p (snd e))) ?es = filter (\<lambda>e. \<not> (fst e = key \<and> snd e = v)) ?es"
    using Cons.prems(3) by (intro filter_cong) (auto simp: values_of_def)
  let ?st1 = "put_written opts (filter (\<lambda>e. \<not> (fst e = key \<and> snd e = v)) ?es) (logged ?argv st)"
  have step: "exec (git_store rx) [Str ''config'', Str ''--unset'', Arr (map Str (scope_flags opts)), Str key, Str ?p] st
                = (Inr [], ?st1)"
    unfolding exec_unset_pattern store_unset_one [OF assms] using one keep
    by (simp add: trimRight_def)
  have vals1: "values_of key (written_file opts ?st1) = filter (\<lambda>u. u \<noteq> v) (values_of key ?es)"
    using values_of_filter [of key "\<lambda>u. u = v" ?es] by simp
  have d: "distinct us" and vnot: "v \<notin> set us" using Cons.prems(1) by auto
  have c1: "\<forall>u\<in>set us. count_list (values_of key (written_file opts ?st1)) u = 1"
  proof
    fix u assume uin: "u \<in> set us"
    then have "u \<noteq> v" using vnot by auto
    then show "count_list (values_of key (written_file opts ?st1)) u = 1"
      unfolding vals1 using Cons.prems(2) uin by (simp add: count_list_filter_other)
  qed
  have x1: "\<forall>w\<in>set us. \<forall>u\<in>set (values_of key (written_file opts ?st1)). rx (''^'' @ w @ ''$'') u = (u = w)"
    unfolding vals1 using Cons.prems(3) by auto
  from Cons.IH [OF d c1 x1] obtain st' where
    u: "unset_each (git_store rx) (scope_flags opts) key (map Str us) ?st1 = (Inr (), st')" and
    f: "written_file opts st' = filter (\<lambda>e. \<not> (fst e = key \<and> snd e \<in> set us)) (written_file opts ?st1)" and
    o: "other_file opts st' = other_file opts ?st1" and
    i: "invocations st' = invocations ?st1
          @ map (\<lambda>v. ''config'' # ''--unset'' # scope_flags opts @ [key, ''^'' @ v @ ''$'']) us"
    by blast
  have "unset_each (git_store rx) (scope_flags opts) key (map Str (v # us)) st = (Inr (), st')"
    using step u by simp
  moreover have "written_file opts st' = filter (\<lambda>e. \<not> (fst e = key \<and> snd e \<in> set (v # us))) ?es"
    unfolding f by (auto intro: filter_cong)
  moreover have "other_file opts st' = other_file opts st" using o by simp
  moreover have "invocations st' = invocations st
          @ map (\<lambda>v. ''config'' # ''--unset'' # scope_flags opts @ [key, ''^'' @ v @ ''$'']) (v # us)"
    using i by simp
  ultimately show ?case by blast
qed

lemma written_subset_visible:
  "\<not> (global opts \<and> local opts) \<Longrightarrow>
   set (values_of key (written_file opts st)) \<subseteq> set (values_of key (visible_entries opts st))"
  by (auto simp: written_file_def visible_entries_def values_of_def)

text \<open>
  Where the removal of matching values succeeds. On the in-memory store, when the values
  of the key that the scope sees are plain, and every value of the intersection occurs
  exactly once among the values of the key in the file that the scope writes to, and its
  anchored pattern \<^verbatim>\<open>^value$\<close> matches among these values itself and nothing else:
  \<^verbatim>\<open>git.config.unsetMatching\<close> returns the intersection and removes the entries of the
  key with these values by one \<^verbatim>\<open>--unset\<close> invocation each; the values of the key that
  were not requested stay.
\<close>

lemma unsetMatching_removes_intersection:
  assumes "\<not> regex (extend_defaults options)"
    and "\<not> (global (extend_defaults options) \<and> local (extend_defaults options))"
    and "\<not> is_flag key"
    and "castArray values = map Str vs"
    and "current = values_of key (visible_entries (extend_defaults options) st)"
    and "\<forall>x\<in>set current. plain x"
    and "removed = first_occurrences (filter (\<lambda>v. v \<in> set current) vs)"
    and "\<forall>v\<in>set removed. count_list (values_of key (written_file (extend_defaults options) st)) v = 1"
    and "\<forall>v\<in>set removed. \<forall>u\<in>set (values_of key (written_file (extend_defaults options) st)).
           rx (''^'' @ v @ ''$'') u = (u = v)"
  shows "\<exists>st'. config_unsetMatching (git_store rx) key values options st = (Inr (map Str removed), st')
           \<and> set removed = set vs \<inter> set current \<and> distinct removed
           \<and> written_file (extend_defaults options) st' =
               filter (\<lambda>e. \<not> (fst e = key \<and> snd e \<in> set removed))
                 (written_file (extend_defaults options) st)
           \<and> values_of key (written_file (extend_defaults options) st') =
               filter (\<lambda>u. u \<notin> set vs) (values_of key (written_file (extend_defaults options) st))
           \<and> other_file (extend_defaults options) st' = other_file (extend_defaults options) st
           \<and> invocations st' =
               invocations st
               @ [''config'' # get_flags ((extend_defaults options)\<lparr>all := True\<rparr>) @ [key]]
               @ map (\<lambda>v. ''config'' # ''--unset'' # scope_flags (extend_defaults options)
                             @ [key, ''^'' @ v @ ''$'']) removed"
proof -
  let ?opts = "extend_defaults options"
  let ?st0 = "logged (''config'' # get_flags (?opts\<lparr>all := True\<rparr>) @ [key]) st"
  have p: "\<forall>x\<in>set (values_of key (visible_entries ?opts st)). plain x"
    using assms(5,6) by simp
  have g: "config_get (git_store rx) key (Obj (?opts\<lparr>all := True\<rparr>)) st = (Inr (Values (map Str current)), ?st0)"
    unfolding assms(5) by (rule config_get_all_store [OF assms(2,3,1) p])
  have inter: "intersection (map Str vs) (map Str current) = map Str removed"
    unfolding assms(7) by (rule intersection_strs)
  have d: "distinct removed" unfolding assms(7) by simp
  have c0: "\<forall>v\<in>set removed. count_list (values_of key (written_file ?opts ?st0)) v = 1"
    using assms(8) by simp
  have x0: "\<forall>v\<in>set removed. \<forall>u\<in>set (values_of key (written_file ?opts ?st0)). rx (''^'' @ v @ ''$'') u = (u = v)"
    using assms(9) by simp
  from unset_each_store [OF assms(2,3) d c0 x0] obtain st' where
    u: "unset_each (git_store rx) (scope_flags ?opts) key (map Str removed) ?st0 = (Inr (), st')" and
    f: "written_file ?opts st' = filter (\<lambda>e. \<not> (fst e = key \<and> snd e \<in> set removed)) (written_file ?opts ?st0)" and
    o: "other_file ?opts st' = other_file ?opts ?st0" and
    i: "invocations st' = invocations ?st0
          @ map (\<lambda>v. ''config'' # ''--unset'' # scope_flags ?opts @ [key, ''^'' @ v @ ''$'']) removed"
    by blast
  have res: "config_unsetMatching (git_store rx) key values options st = (Inr (map Str removed), st')"
    using assms(4) g inter u by (simp add: config_unsetMatching_def Let_def)
  have s: "set removed = set vs \<inter> set current" unfolding assms(7) by auto
  have sub: "set (values_of key (written_file ?opts st)) \<subseteq> set current"
    unfolding assms(5) by (rule written_subset_visible [OF assms(2)])
  have "values_of key (written_file ?opts st') =
          filter (\<lambda>u. u \<notin> set removed) (values_of key (written_file ?opts st))"
    unfolding f using values_of_filter [of key "\<lambda>u. u \<in> set removed" "written_file ?opts st"] by simp
  also have "\<dots> = filter (\<lambda>u. u \<notin> set vs) (values_of key (written_file ?opts st))"
    using sub s by (intro filter_cong) auto
  finally have vals: "values_of key (written_file ?opts st') =
          filter (\<lambda>u. u \<notin> set vs) (values_of key (written_file ?opts st))" .
  from res s d f vals o i show ?thesis by simp
qed

text \<open>
  Claim C5 says that \<^verbatim>\<open>git.config.unsetMatching\<close> removes the requested values that the
  key holds and returns them. When the key holds a requested value twice, the single
  \<^verbatim>\<open>--unset\<close> with the anchored pattern finds two entries: the executable exits with
  status 5 and removes nothing, and the call raises instead of returning the
  intersection.
\<close>

theorem unsetMatching_fails_on_repeated_value:
  "config_unsetMatching (git_store rx_exact) ''k'' (Arr [Str ''a'']) Undefined
     \<lparr>global_file = [], local_file = [(''k'', ''a''), (''k'', ''a'')], invocations = []\<rparr>
   = (Inl (GitError (Some 5) (Str ''config'') [] ''error''),
      \<lparr>global_file = [], local_file = [(''k'', ''a''), (''k'', ''a'')],
       invocations = [[''config'', ''--get-all'', ''k''], [''config'', ''--unset'', ''k'', ''^a$'']]\<rparr>)"
  by code_simp

subsection \<open>Instances\<close>

text \<open>
  Claim C6 says that after adding unique values twice every requested value is there
  once, and that the second application adds nothing. A value requested twice is added
  twice by the first application, since the difference keeps the repetitions of the
  requested list. A value that ends in a space is added again by the second application,
  since the read gives it back trimmed and it is not found among the current values.
\<close>

theorem unique_add_repeats_values:
  "(let options = Obj (no_options\<lparr>add := True, unique := True\<rparr>);
        (r1, st1) = config_set (git_store rx_exact) ''k'' (Arr [Str ''a'', Str ''a'']) options empty_store;
        (r2, st2) = config_set (git_store rx_exact) ''k'' (Arr [Str ''a'', Str ''a'']) options st1
    in (r1, r2, fst (config_get (git_store rx_exact) ''k'' (Obj (no_options\<lparr>all := True\<rparr>)) st2)))
   = (Inr [Str ''a'', Str ''a''], Inr [], Inr (Values [Str ''a'', Str ''a'']))
   \<and> (let options = Obj (no_options\<lparr>add := True, unique := True\<rparr>);
        (r1, st1) = config_set (git_store rx_exact) ''k'' (Arr [Str ''a '']) options empty_store;
        (r2, st2) = config_set (git_store rx_exact) ''k'' (Arr [Str ''a '']) options st1
    in (r1, r2, values_of ''k'' (local_file st2)))
   = (Inr [Str ''a ''], Inr [Str ''a ''], [''a '', ''a ''])"
  by code_simp

text \<open>A witness for C7: the three keys of the claim.\<close>

theorem subsections_of_regex_read_witness:
  "config_subsections
     (\<lambda>args w. (succeeded (''remote.origin.url u'' @ [CHR 0x0A] @ ''remote.origin.fetch f''
                            @ [CHR 0x0A] @ ''remote.upstream.url v'' @ [CHR 0x0A]), w))
     ''remote'' Undefined ()
   = (Inr [''origin'', ''origin'', ''upstream''], ())
   \<and> set [''origin'', ''origin'', ''upstream''] = set [''origin'', ''upstream'']"
proof -
  let ?printed = "''remote.origin.url u'' @ [CHR 0x0A] @ ''remote.origin.fetch f''
                            @ [CHR 0x0A] @ ''remote.upstream.url v'' @ [CHR 0x0A]"
  let ?git = "\<lambda>args w. (succeeded ?printed, w) :: spawn_result \<times> unit"
  have lines: "split_lines (trimRight ?printed)
                 = [''remote.origin.url u'', ''remote.origin.fetch f'', ''remote.upstream.url v'']"
    by (simp add: trimRight_def is_white_def)
  have h1: "\<not> all (extend_defaults Undefined)" by (simp add: no_options_def)
  have h3: "status (succeeded ?printed) = Some 0" by (simp add: succeeded_def)
  have h4: "stdout (succeeded ?printed) = Some ?printed" by (simp add: succeeded_def)
  have h5: "\<forall>line\<in>set (split_lines (trimRight ?printed)).
              CHR 0x0D \<notin> set line \<and> CHR ''.'' \<in> set (spec_key line)"
    unfolding lines by (simp add: spec_key_def)
  have keys: "map spec_key (split_lines (trimRight ?printed))
                = [''remote.origin.url'', ''remote.origin.fetch'', ''remote.upstream.url'']"
    unfolding lines by (simp add: spec_key_def)
  note t = subsections_of_regex_read [where options = Undefined and git = "?git" and w = "()"
      and result = "succeeded ?printed" and w' = "()" and printed = "?printed", of "''remote''"]
  from t [OF h1 _ h3 h4 h5] keys show ?thesis
    by (simp add: subsection_name_def)
qed

end
